theory Spec2Isabelle
  imports Complex_Main "HOL-Library.Monad_Syntax"
begin

section \<open>Territorial Control: the session state of \<open>src/main.cpp\<close>\<close>

text \<open>
  The theory embeds the turn logic of \<open>src/main.cpp\<close>. The global variables of the
  program form one record that every operation takes and returns. An operation returns
  \<open>None\<close> where the C++ program indexes a \<open>std::vector\<close> outside its allocated
  range, which has no defined behaviour; every element access of the source goes through
  \<open>gridGet\<close>, \<open>gridSet\<close> or \<open>vecAt\<close>, which check the range of the vector as it
  is allocated, not the range \<open>gridSize\<close> promises. The only other source of \<open>None\<close>
  is a shuffle outcome that is not a permutation, which the library cannot produce.

  The C++ \<open>int\<close> counters are modelled as \<open>int\<close>: they stay within a few hundred
  in every run, since a charge or a cell is only gained by capturing one of at most 144
  cells. The \<open>float\<close> timer is modelled as a real number; only its comparison with the
  delay matters. Rendering, audio and the conversion of the mouse position to grid
  coordinates are outside the model: a click arrives as the pair \<open>(gridX, gridY)\<close>
  computed in \<open>handleInput\<close>.
\<close>

datatype CellState = NEUTRAL | PLAYER | AI
datatype GameState = MENU | PLAYING | GAME_OVER
datatype GameResult = NONE | PLAYER_WIN | AI_WIN | DRAW
datatype ImpulseMode = IMPULSE_NONE | ATTACK | SPEED

type_synonym cell = "int \<times> int"
type_synonym board = "CellState list list"

record game =
  currentState :: GameState
  gameResult :: GameResult
  gridSize :: int
  playerTurn :: bool
  impulseModeActive :: bool
  currentImpulseMode :: ImpulseMode
  selectedGridSize :: int
  grid :: board
  playerCells :: int
  aiCells :: int
  playerCharges :: int
  aiCharges :: int
  aiTimer :: real
  selectedCells :: "cell list"

definition DEFAULT_GRID_SIZE :: int where "DEFAULT_GRID_SIZE = 10"
definition IMPULSE_COST :: int where "IMPULSE_COST = 3"
definition AI_DELAY :: real where "AI_DELAY = 1"
definition WIN_PERCENTAGE :: int where "WIN_PERCENTAGE = 45"

text \<open>The global \<open>impulseCost\<close> is initialised to \<open>IMPULSE_COST\<close> and never assigned.\<close>

definition impulseCost :: int where "impulseCost = IMPULSE_COST"

text \<open>The values of the globals before \<open>main\<close> runs (lines 20-50).\<close>

definition globals0 :: game where
  "globals0 = \<lparr> currentState = MENU, gameResult = NONE, gridSize = DEFAULT_GRID_SIZE,
      playerTurn = True, impulseModeActive = False, currentImpulseMode = IMPULSE_NONE,
      selectedGridSize = 1, grid = [], playerCells = 1, aiCells = 1,
      playerCharges = 0, aiCharges = 0, aiTimer = 0, selectedCells = [] \<rparr>"

subsection \<open>Element access\<close>

definition vecAt :: "'a list \<Rightarrow> int \<Rightarrow> 'a option" where
  "vecAt v i = (if 0 \<le> i \<and> i < int (length v) then Some (v ! nat i) else None)"

definition gridGet :: "board \<Rightarrow> int \<Rightarrow> int \<Rightarrow> CellState option" where
  "gridGet g x y = do { row \<leftarrow> vecAt g x; vecAt row y }"

definition gridSet :: "board \<Rightarrow> int \<Rightarrow> int \<Rightarrow> CellState \<Rightarrow> board option" where
  "gridSet g x y v = do {
     row \<leftarrow> vecAt g x;
     _ \<leftarrow> vecAt row y;
     Some (g[nat x := row[nat y := v]])
   }"

text \<open>\<open>grid[cell.first][cell.second] = v\<close> for each cell of a list, in order.\<close>

fun setCells :: "board \<Rightarrow> cell list \<Rightarrow> CellState \<Rightarrow> board option" where
  "setCells g [] v = Some g"
| "setCells g ((x, y) # cs) v = do { g' \<leftarrow> gridSet g x y v; setCells g' cs v }"

text \<open>The pairs visited by \<open>for x in [0, n) for y in [0, n)\<close>, in the order of the loops.\<close>

definition allCells :: "int \<Rightarrow> cell list" where
  "allCells n = List.product [0..n - 1] [0..n - 1]"

subsection \<open>Session start\<close>

text \<open>\<open>std::vector::resize(n, row)\<close>: truncate, or append copies of \<open>row\<close>.\<close>

definition resizeVec :: "'a list \<Rightarrow> int \<Rightarrow> 'a \<Rightarrow> 'a list" where
  "resizeVec v n row =
     (if int (length v) \<ge> n then take (nat n) v else v @ replicate (nat n - length v) row)"

definition initializeGame :: "game \<Rightarrow> game option" where
  "initializeGame s = do {
     let g0 = resizeVec (grid s) (gridSize s) (replicate (nat (gridSize s)) NEUTRAL);
     g1 \<leftarrow> gridSet g0 0 0 PLAYER;
     g2 \<leftarrow> gridSet g1 (gridSize s - 1) (gridSize s - 1) AI;
     Some (s\<lparr> grid := g2, playerCells := 1, aiCells := 1, playerCharges := 0,
              aiCharges := 0, playerTurn := True, impulseModeActive := False,
              currentImpulseMode := IMPULSE_NONE \<rparr>)
   }"

definition resetGame :: "game \<Rightarrow> game option" where
  "resetGame s = do {
     g0 \<leftarrow> setCells (grid s) (allCells (gridSize s)) NEUTRAL;
     g1 \<leftarrow> gridSet g0 0 0 PLAYER;
     g2 \<leftarrow> gridSet g1 (gridSize s - 1) (gridSize s - 1) AI;
     Some (s\<lparr> grid := g2, playerCells := 1, aiCells := 1, playerCharges := 0,
              aiCharges := 0, playerTurn := True, impulseModeActive := False,
              currentImpulseMode := IMPULSE_NONE, selectedCells := [],
              gameResult := NONE, currentState := PLAYING \<rparr>)
   }"

subsection \<open>One frame of input\<close>

text \<open>
  What the raylib queries of one frame return. \<open>click\<close> is \<open>IsMouseButtonPressed\<close>
  together with the grid coordinates computed from the mouse position; \<open>menuHit\<close> is the
  menu rectangle that contains the mouse position (the rectangles are disjoint).
\<close>

datatype MenuButton = Btn7 | Btn10 | Btn12 | BtnMusic | BtnStart | BtnExit

record frameInput =
  click :: "cell option"
  menuHit :: "MenuButton option"
  keyA :: bool
  keyS :: bool
  keySpace :: bool
  keyR :: bool
  keyEscape :: bool

definition noInput :: frameInput where
  "noInput = \<lparr> click = None, menuHit = None, keyA = False, keyS = False,
      keySpace = False, keyR = False, keyEscape = False \<rparr>"

definition menuPressed :: "frameInput \<Rightarrow> MenuButton \<Rightarrow> bool" where
  "menuPressed inp b \<longleftrightarrow> menuHit inp = Some b \<and> click inp \<noteq> None"

text \<open>The \<open>switch (selectedGridSize)\<close> of \<open>updateMenu\<close>; it has no default case.\<close>

definition chooseGridSize :: "game \<Rightarrow> game" where
  "chooseGridSize s =
     (if selectedGridSize s = 0 then s\<lparr> gridSize := 7 \<rparr>
      else if selectedGridSize s = 1 then s\<lparr> gridSize := 10 \<rparr>
      else if selectedGridSize s = 2 then s\<lparr> gridSize := 12 \<rparr>
      else s)"

definition startGame :: "game \<Rightarrow> game option" where
  "startGame s = do { s' \<leftarrow> resetGame (chooseGridSize s); Some (s'\<lparr> currentState := PLAYING \<rparr>) }"

definition updateMenu :: "frameInput \<Rightarrow> game \<Rightarrow> game option" where
  "updateMenu inp s = do {
     let s1 = (if menuPressed inp Btn7 then s\<lparr> selectedGridSize := 0 \<rparr> else s);
     let s2 = (if menuPressed inp Btn10 then s1\<lparr> selectedGridSize := 1 \<rparr> else s1);
     let s3 = (if menuPressed inp Btn12 then s2\<lparr> selectedGridSize := 2 \<rparr> else s2);
     s4 \<leftarrow> (if menuPressed inp BtnStart then startGame s3 else Some s3);
     (if keySpace inp then startGame s4 else Some s4)
   }"

text \<open>\<open>main\<close> calls \<open>initializeGame\<close> once, on the initial globals, before the first frame.\<close>

definition programStart :: "game option" where
  "programStart = initializeGame globals0"

subsection \<open>Adjacency and move legality\<close>

definition inGrid :: "game \<Rightarrow> int \<Rightarrow> int \<Rightarrow> bool" where
  "inGrid s x y \<longleftrightarrow> x \<ge> 0 \<and> x < gridSize s \<and> y \<ge> 0 \<and> y < gridSize s"

text \<open>The offsets \<open>dx = {-1, 1, 0, 0}\<close>, \<open>dy = {0, 0, -1, 1}\<close>, clipped to the grid.\<close>

definition getAdjacentCells :: "game \<Rightarrow> int \<Rightarrow> int \<Rightarrow> cell list" where
  "getAdjacentCells s x y =
     filter (\<lambda>(nx, ny). inGrid s nx ny) [(x - 1, y), (x + 1, y), (x, y - 1), (x, y + 1)]"

text \<open>
  The loop \<open>for (auto& adj : adjacent) if (grid[adj.first][adj.second] == owner) ...\<close>,
  which leaves at the first hit.
\<close>

fun anyOwned :: "board \<Rightarrow> cell list \<Rightarrow> CellState \<Rightarrow> bool option" where
  "anyOwned g [] owner = Some False"
| "anyOwned g ((ax, ay) # adj) owner = do {
     c \<leftarrow> gridGet g ax ay;
     if c = owner then Some True else anyOwned g adj owner
   }"

definition isValidMove :: "game \<Rightarrow> int \<Rightarrow> int \<Rightarrow> CellState \<Rightarrow> bool option" where
  "isValidMove s x y player =
     (if x < 0 \<or> x \<ge> gridSize s \<or> y < 0 \<or> y \<ge> gridSize s then Some False
      else do {
        c \<leftarrow> gridGet (grid s) x y;
        if c \<noteq> NEUTRAL then Some False
        else anyOwned (grid s) (getAdjacentCells s x y) player
      })"

text \<open>
  The double loop shared by \<open>getAvailableMoves\<close> (cells in state \<open>NEUTRAL\<close> next to
  \<open>owner\<close>) and \<open>getAIAttackMove\<close> (cells in state \<open>PLAYER\<close> next to \<open>AI\<close>):
  the cells in state \<open>want\<close> with a neighbour in state \<open>owner\<close>, in visiting order.
\<close>

fun scanCells :: "game \<Rightarrow> CellState \<Rightarrow> CellState \<Rightarrow> cell list \<Rightarrow> cell list option" where
  "scanCells s want owner [] = Some []"
| "scanCells s want owner ((x, y) # cs) = do {
     c \<leftarrow> gridGet (grid s) x y;
     hit \<leftarrow> (if c = want then anyOwned (grid s) (getAdjacentCells s x y) owner else Some False);
     rest \<leftarrow> scanCells s want owner cs;
     Some (if hit then (x, y) # rest else rest)
   }"

definition getAvailableMoves :: "game \<Rightarrow> CellState \<Rightarrow> cell list option" where
  "getAvailableMoves s player = scanCells s NEUTRAL player (allCells (gridSize s))"

subsection \<open>Player input\<close>

definition startImpulseMode :: "ImpulseMode \<Rightarrow> game \<Rightarrow> game" where
  "startImpulseMode mode s =
     (if playerCharges s \<ge> impulseCost
      then s\<lparr> impulseModeActive := True, currentImpulseMode := mode, selectedCells := [] \<rparr>
      else s)"

definition finishImpulseMode :: "game \<Rightarrow> game" where
  "finishImpulseMode s =
     s\<lparr> impulseModeActive := False, currentImpulseMode := IMPULSE_NONE, selectedCells := [] \<rparr>"

text \<open>The loop \<open>for (auto& cell : selectedCells) if (cell == (x, y)) alreadySelected = true\<close>.\<close>

definition alreadySelected :: "game \<Rightarrow> int \<Rightarrow> int \<Rightarrow> bool" where
  "alreadySelected s x y \<longleftrightarrow> (x, y) \<in> set (selectedCells s)"

text \<open>Lines 690-694: the selected cells pass from the AI to the player, one at a time.\<close>

fun playerTakeFromAI :: "cell list \<Rightarrow> game \<Rightarrow> game option" where
  "playerTakeFromAI [] s = Some s"
| "playerTakeFromAI ((cx, cy) # cs) s = do {
     g \<leftarrow> gridSet (grid s) cx cy PLAYER;
     playerTakeFromAI cs (s\<lparr> grid := g, aiCells := aiCells s - 1,
                              playerCells := playerCells s + 1 \<rparr>)
   }"

text \<open>Lines 721-724: the selected neutral cells pass to the player.\<close>

fun playerTakeNeutral :: "cell list \<Rightarrow> game \<Rightarrow> game option" where
  "playerTakeNeutral [] s = Some s"
| "playerTakeNeutral ((cx, cy) # cs) s = do {
     g \<leftarrow> gridSet (grid s) cx cy PLAYER;
     playerTakeNeutral cs (s\<lparr> grid := g, playerCells := playerCells s + 1 \<rparr>)
   }"

text \<open>Lines 685-699: push the target, then resolve the attack once two are selected.\<close>

definition selectAttackTarget :: "int \<Rightarrow> int \<Rightarrow> game \<Rightarrow> game option" where
  "selectAttackTarget x y s = do {
     let s1 = (if \<not> alreadySelected s x y \<and> length (selectedCells s) < 2
               then s\<lparr> selectedCells := selectedCells s @ [(x, y)] \<rparr> else s);
     if length (selectedCells s1) \<ge> 2 then do {
       s2 \<leftarrow> playerTakeFromAI (selectedCells s1) s1;
       let s3 = s2\<lparr> playerCharges := playerCharges s2 - impulseCost \<rparr>;
       Some ((finishImpulseMode s3)\<lparr> playerTurn := False, aiTimer := 0 \<rparr>)
     } else Some s1
   }"

text \<open>Lines 715-729: the same for the speed impulse, with three targets.\<close>

definition selectSpeedTarget :: "int \<Rightarrow> int \<Rightarrow> game \<Rightarrow> game option" where
  "selectSpeedTarget x y s = do {
     let s1 = (if \<not> alreadySelected s x y \<and> length (selectedCells s) < 3
               then s\<lparr> selectedCells := selectedCells s @ [(x, y)] \<rparr> else s);
     if length (selectedCells s1) \<ge> 3 then do {
       s2 \<leftarrow> playerTakeNeutral (selectedCells s1) s1;
       let s3 = s2\<lparr> playerCharges := playerCharges s2 - impulseCost \<rparr>;
       Some ((finishImpulseMode s3)\<lparr> playerTurn := False, aiTimer := 0 \<rparr>)
     } else Some s1
   }"

definition handleImpulseCellSelection :: "int \<Rightarrow> int \<Rightarrow> game \<Rightarrow> game option" where
  "handleImpulseCellSelection x y s =
     (if currentImpulseMode s = ATTACK then do {
        c \<leftarrow> gridGet (grid s) x y;
        if c = AI then do {
          hit \<leftarrow> anyOwned (grid s) (getAdjacentCells s x y) PLAYER;
          if hit then selectAttackTarget x y s else Some s
        } else Some s
      } else if currentImpulseMode s = SPEED then do {
        c \<leftarrow> gridGet (grid s) x y;
        if c = NEUTRAL then do {
          ok \<leftarrow> isValidMove s x y PLAYER;
          if ok then selectSpeedTarget x y s else Some s
        } else Some s
      } else Some s)"

text \<open>Lines 550-567 of \<open>handleInput\<close>: an ordinary capture by a click.\<close>

definition clickCapture :: "frameInput \<Rightarrow> game \<Rightarrow> game option" where
  "clickCapture inp s =
     (case click inp of
        None \<Rightarrow> Some s
      | Some (gridX, gridY) \<Rightarrow>
          if gridX \<ge> 0 \<and> gridX < gridSize s \<and> gridY \<ge> 0 \<and> gridY < gridSize s then do {
            c \<leftarrow> gridGet (grid s) gridX gridY;
            ok \<leftarrow> (if c = NEUTRAL then isValidMove s gridX gridY PLAYER else Some False);
            if ok then do {
              g \<leftarrow> gridSet (grid s) gridX gridY PLAYER;
              Some (s\<lparr> grid := g, playerCells := playerCells s + 1,
                       playerCharges := playerCharges s + 1, playerTurn := False,
                       aiTimer := 0 \<rparr>)
            } else Some s
          } else Some s)"

text \<open>Lines 569-577: the impulse keys.\<close>

definition impulseKeys :: "frameInput \<Rightarrow> game \<Rightarrow> game" where
  "impulseKeys inp s =
     (if playerCharges s \<ge> impulseCost
      then (if keyA inp then startImpulseMode ATTACK s
            else if keyS inp then startImpulseMode SPEED s else s)
      else s)"

text \<open>Lines 580-588: a click while the impulse selection is active.\<close>

definition impulseClick :: "frameInput \<Rightarrow> game \<Rightarrow> game option" where
  "impulseClick inp s =
     (case click inp of
        None \<Rightarrow> Some s
      | Some (gridX, gridY) \<Rightarrow>
          if impulseModeActive s then
            (if gridX \<ge> 0 \<and> gridX < gridSize s \<and> gridY \<ge> 0 \<and> gridY < gridSize s
             then handleImpulseCellSelection gridX gridY s else Some s)
          else Some s)"

definition handleInput :: "frameInput \<Rightarrow> game \<Rightarrow> game option" where
  "handleInput inp s =
     (case currentState s of
        MENU \<Rightarrow> Some s
      | PLAYING \<Rightarrow> do {
          s1 \<leftarrow> (if playerTurn s \<and> \<not> impulseModeActive s
                 then do { s' \<leftarrow> clickCapture inp s; Some (impulseKeys inp s') }
                 else Some s);
          impulseClick inp s1
        }
      | GAME_OVER \<Rightarrow> Some s)"

subsection \<open>The AI turn\<close>

text \<open>
  The values drawn from the generator \<open>rng\<close> during one call of \<open>processAITurn\<close>, in
  the order of the calls that can draw them: \<open>flip1\<close> and \<open>flip2\<close> are the results of
  the first and the second \<open>uniform_real_distribution(0.0, 1.0)\<close> draw in
  \<open>decideAIImpulseMode\<close>, \<open>pick\<close> is the result of the \<open>uniform_int_distribution\<close>
  draw in \<open>getAIMove\<close>, and \<open>perm\<close> is the rearrangement \<open>std::shuffle\<close> applies:
  position \<open>i\<close> of the shuffled vector holds the element that was at index \<open>perm ! i\<close>.
\<close>

record draws =
  flip1 :: real
  flip2 :: real
  pick :: int
  perm :: "nat list"

definition decideAIImpulseMode :: "real \<Rightarrow> ImpulseMode" where
  "decideAIImpulseMode u = (if u < 0.5 then ATTACK else SPEED)"

text \<open>
  \<open>std::shuffle\<close> returns a rearrangement of the whole vector. A \<open>perm\<close> that is not a
  permutation of the indices is not a possible outcome and gives \<open>None\<close>.
\<close>

definition isPermutation :: "nat list \<Rightarrow> nat \<Rightarrow> bool" where
  "isPermutation p n \<longleftrightarrow> length p = n \<and> distinct p \<and> list_all (\<lambda>i. i < n) p"

definition shuffle :: "nat list \<Rightarrow> 'a list \<Rightarrow> 'a list option" where
  "shuffle p v = (if isPermutation p (length v) then Some (map (\<lambda>i. v ! i) p) else None)"

definition getAIMove :: "draws \<Rightarrow> game \<Rightarrow> cell option" where
  "getAIMove rnd s = do {
     availableMoves \<leftarrow> getAvailableMoves s AI;
     if availableMoves = [] then Some (-1, -1) else vecAt availableMoves (pick rnd)
   }"

definition getAIAttackMove :: "draws \<Rightarrow> game \<Rightarrow> cell list option" where
  "getAIAttackMove rnd s = do {
     attackableCells \<leftarrow> scanCells s PLAYER AI (allCells (gridSize s));
     if attackableCells = [] then Some []
     else do {
       shuffled \<leftarrow> shuffle (perm rnd) attackableCells;
       if length shuffled \<ge> 2 then do {
         a \<leftarrow> vecAt shuffled 0; b \<leftarrow> vecAt shuffled 1; Some [a, b] }
       else if shuffled \<noteq> [] then do { a \<leftarrow> vecAt shuffled 0; Some [a] }
       else Some []
     }
   }"

definition getAISpeedMove :: "draws \<Rightarrow> game \<Rightarrow> cell list option" where
  "getAISpeedMove rnd s = do {
     availableMoves \<leftarrow> getAvailableMoves s AI;
     if availableMoves = [] then Some []
     else do {
       moves \<leftarrow> shuffle (perm rnd) availableMoves;
       if length moves \<ge> 3 then do {
         a \<leftarrow> vecAt moves 0; b \<leftarrow> vecAt moves 1; c \<leftarrow> vecAt moves 2; Some [a, b, c] }
       else if length moves \<ge> 2 then do {
         a \<leftarrow> vecAt moves 0; b \<leftarrow> vecAt moves 1; Some [a, b] }
       else if moves \<noteq> [] then do { a \<leftarrow> vecAt moves 0; Some [a] }
       else Some []
     }
   }"

definition checkWinCondition :: "game \<Rightarrow> game" where
  "checkWinCondition s =
     (let totalCells = gridSize s * gridSize s;
          targetCells = (totalCells * WIN_PERCENTAGE + 99) div 100;
          playerWin = (playerCells s \<ge> targetCells);
          aiWin = (aiCells s \<ge> targetCells)
      in if playerWin \<and> aiWin then s\<lparr> gameResult := DRAW \<rparr>
         else if playerWin then s\<lparr> gameResult := PLAYER_WIN \<rparr>
         else if aiWin then s\<lparr> gameResult := AI_WIN \<rparr>
         else s)"

text \<open>Lines 609-615: the attack loop of the AI, one cell at a time.\<close>

fun aiTakeFromPlayer :: "cell list \<Rightarrow> game \<Rightarrow> game option" where
  "aiTakeFromPlayer [] s = Some s"
| "aiTakeFromPlayer ((cx, cy) # cs) s =
     (if cx \<noteq> -1 then do {
        g \<leftarrow> gridSet (grid s) cx cy AI;
        aiTakeFromPlayer cs (s\<lparr> grid := g, playerCells := playerCells s - 1,
                                 aiCells := aiCells s + 1 \<rparr>)
      } else aiTakeFromPlayer cs s)"

text \<open>Lines 622-627: the speed loop of the AI.\<close>

fun aiTakeNeutral :: "cell list \<Rightarrow> game \<Rightarrow> game option" where
  "aiTakeNeutral [] s = Some s"
| "aiTakeNeutral ((cx, cy) # cs) s =
     (if cx \<noteq> -1 then do {
        g \<leftarrow> gridSet (grid s) cx cy AI;
        aiTakeNeutral cs (s\<lparr> grid := g, aiCells := aiCells s + 1 \<rparr>)
      } else aiTakeNeutral cs s)"

definition aiAttackBranch :: "draws \<Rightarrow> game \<Rightarrow> game option" where
  "aiAttackBranch rnd s = do {
     attackCells \<leftarrow> getAIAttackMove rnd s;
     s1 \<leftarrow> aiTakeFromPlayer attackCells s;
     Some (if attackCells \<noteq> [] then s1\<lparr> aiCharges := aiCharges s1 - impulseCost \<rparr> else s1)
   }"

definition aiSpeedBranch :: "draws \<Rightarrow> game \<Rightarrow> game option" where
  "aiSpeedBranch rnd s = do {
     cells \<leftarrow> getAISpeedMove rnd s;
     s1 \<leftarrow> aiTakeNeutral cells s;
     Some (if cells \<noteq> [] then s1\<lparr> aiCharges := aiCharges s1 - impulseCost \<rparr> else s1)
   }"

text \<open>Lines 633-639: the ordinary capture of the AI.\<close>

definition aiCaptureBranch :: "draws \<Rightarrow> game \<Rightarrow> game option" where
  "aiCaptureBranch rnd s = do {
     move \<leftarrow> getAIMove rnd s;
     if fst move \<noteq> -1 then do {
       g \<leftarrow> gridSet (grid s) (fst move) (snd move) AI;
       Some (s\<lparr> grid := g, aiCells := aiCells s + 1, aiCharges := aiCharges s + 1 \<rparr>)
     } else Some s
   }"

text \<open>
  \<open>&&\<close> short-circuits, so the first draw happens only with enough charges, and the
  second only when the first check drew and did not choose the attack.
\<close>

definition processAITurn :: "real \<Rightarrow> draws \<Rightarrow> game \<Rightarrow> game option" where
  "processAITurn deltaTime rnd s0 =
     (let s = s0\<lparr> aiTimer := aiTimer s0 + deltaTime \<rparr> in
      if aiTimer s \<ge> AI_DELAY then do {
        s1 \<leftarrow> (if aiCharges s \<ge> impulseCost \<and> decideAIImpulseMode (flip1 rnd) = ATTACK
               then aiAttackBranch rnd s
               else if aiCharges s \<ge> impulseCost \<and> decideAIImpulseMode (flip2 rnd) = SPEED
               then aiSpeedBranch rnd s
               else aiCaptureBranch rnd s);
        Some (checkWinCondition (s1\<lparr> playerTurn := True \<rparr>))
      } else Some s)"

subsection \<open>The frame loop\<close>

definition updateGame :: "real \<Rightarrow> frameInput \<Rightarrow> draws \<Rightarrow> game \<Rightarrow> game option" where
  "updateGame deltaTime inp rnd s =
     (case currentState s of
        MENU \<Rightarrow> updateMenu inp s
      | PLAYING \<Rightarrow>
          if gameResult s \<noteq> NONE then Some (s\<lparr> currentState := GAME_OVER \<rparr>)
          else if playerTurn s then Some s
          else processAITurn deltaTime rnd s
      | GAME_OVER \<Rightarrow>
          Some (if keyR inp \<or> keyEscape inp then s\<lparr> currentState := MENU \<rparr> else s))"

text \<open>One pass of the loop of \<open>main\<close>: \<open>handleInput(); updateGame(deltaTime);\<close>.\<close>

record frame =
  input :: frameInput
  deltaTime :: real
  random :: draws

definition frameStep :: "frame \<Rightarrow> game \<Rightarrow> game option" where
  "frameStep f s = do {
     s1 \<leftarrow> handleInput (input f) s;
     updateGame (deltaTime f) (input f) (random f) s1
   }"

fun runFrames :: "frame list \<Rightarrow> game \<Rightarrow> game option" where
  "runFrames [] s = Some s"
| "runFrames (f # fs) s = do { s1 \<leftarrow> frameStep f s; runFrames fs s1 }"

text \<open>
  What a frame can supply: \<open>GetFrameTime\<close> is not negative and
  \<open>uniform_real_distribution(0.0, 1.0)\<close> draws from the interval \<open>[0, 1)\<close>.
\<close>

definition validFrame :: "frame \<Rightarrow> bool" where
  "validFrame f \<longleftrightarrow> 0 \<le> deltaTime f
     \<and> 0 \<le> flip1 (random f) \<and> flip1 (random f) < 1
     \<and> 0 \<le> flip2 (random f) \<and> flip2 (random f) < 1"

text \<open>The states the program can be in between two frames.\<close>

inductive reachable :: "game \<Rightarrow> bool" where
  start: "programStart = Some s \<Longrightarrow> reachable s"
| step: "reachable s \<Longrightarrow> validFrame f \<Longrightarrow> frameStep f s = Some s' \<Longrightarrow> reachable s'"

section \<open>Vocabulary of the properties\<close>

text \<open>
  The grid is allocated for the current size: it has at least \<open>gridSize\<close> rows and each
  of the first \<open>gridSize\<close> rows has at least \<open>gridSize\<close> cells. \<open>resetGame\<close> never
  resizes the grid, so the allocation can be larger than the size of the session.
\<close>

definition gridAllocated :: "game \<Rightarrow> bool" where
  "gridAllocated s \<longleftrightarrow> gridSize s \<le> int (length (grid s))
     \<and> list_all (\<lambda>row. gridSize s \<le> int (length row)) (take (nat (gridSize s)) (grid s))"

text \<open>The content of a cell inside the grid, and the board with one cell overwritten.\<close>

definition cellAt :: "game \<Rightarrow> int \<Rightarrow> int \<Rightarrow> CellState" where
  "cellAt s x y = grid s ! nat x ! nat y"

definition boardSet :: "board \<Rightarrow> cell \<Rightarrow> CellState \<Rightarrow> board" where
  "boardSet g c v = g[nat (fst c) := (g ! nat (fst c))[nat (snd c) := v]]"

text \<open>
  The rules in the words of the specification: the neighbours of a cell are the positions
  above, below, left and right of it that lie inside the grid; a legal capture target is a
  neutral cell inside the grid with a neighbour owned by the capturing side; an attack
  target of the player is a cell of the AI with a neighbour owned by the player.
\<close>

definition ownedAt :: "game \<Rightarrow> int \<Rightarrow> int \<Rightarrow> CellState \<Rightarrow> bool" where
  "ownedAt s x y owner \<longleftrightarrow> inGrid s x y \<and> cellAt s x y = owner"

definition hasNeighbour :: "game \<Rightarrow> int \<Rightarrow> int \<Rightarrow> CellState \<Rightarrow> bool" where
  "hasNeighbour s x y owner \<longleftrightarrow>
     ownedAt s (x - 1) y owner \<or> ownedAt s (x + 1) y owner
     \<or> ownedAt s x (y - 1) owner \<or> ownedAt s x (y + 1) owner"

definition legalCapture :: "game \<Rightarrow> CellState \<Rightarrow> cell \<Rightarrow> bool" where
  "legalCapture s owner c \<longleftrightarrow>
     inGrid s (fst c) (snd c) \<and> cellAt s (fst c) (snd c) = NEUTRAL
     \<and> hasNeighbour s (fst c) (snd c) owner"

definition attackTarget :: "game \<Rightarrow> cell \<Rightarrow> bool" where
  "attackTarget s c \<longleftrightarrow>
     inGrid s (fst c) (snd c) \<and> cellAt s (fst c) (snd c) = AI
     \<and> hasNeighbour s (fst c) (snd c) PLAYER"

text \<open>The number of cells of the \<open>gridSize \<times> gridSize\<close> grid that are in a given state.\<close>

definition countCells :: "game \<Rightarrow> CellState \<Rightarrow> int" where
  "countCells s c = int (length (filter (\<lambda>(x, y). cellAt s x y = c) (allCells (gridSize s))))"

definition countsAgree :: "game \<Rightarrow> bool" where
  "countsAgree s \<longleftrightarrow> playerCells s = countCells s PLAYER \<and> aiCells s = countCells s AI
     \<and> playerCells s + aiCells s + countCells s NEUTRAL = gridSize s * gridSize s"

text \<open>The outcome the specification gives for two cell counts and a target.\<close>

definition resultFor :: "int \<Rightarrow> int \<Rightarrow> int \<Rightarrow> GameResult" where
  "resultFor target p a =
     (if p \<ge> target \<and> a \<ge> target then DRAW
      else if p \<ge> target then PLAYER_WIN
      else if a \<ge> target then AI_WIN
      else NONE)"

section \<open>Concrete frames\<close>

definition noDraws :: draws where
  "noDraws = \<lparr> flip1 = 0, flip2 = 0, pick = 0, perm = [] \<rparr>"

text \<open>A click on a menu button, in a frame of no duration.\<close>

definition pressBtn :: "MenuButton \<Rightarrow> frame" where
  "pressBtn b = \<lparr> input = noInput\<lparr> click := Some (0, 0), menuHit := Some b \<rparr>,
      deltaTime = 0, random = noDraws \<rparr>"

text \<open>
  A click on a cell in a frame that lasts as long as the delay of the AI, so that the AI
  answers in the same frame. Its two coin flips give \<open>SPEED\<close> and then \<open>ATTACK\<close>, and
  its ordinary capture takes the legal target at index \<open>k\<close>.
\<close>

definition playRound :: "cell \<Rightarrow> int \<Rightarrow> frame" where
  "playRound c k = \<lparr> input = noInput\<lparr> click := Some c \<rparr>, deltaTime = 1,
      random = \<lparr> flip1 = 0.75, flip2 = 0.25, pick = k, perm = [] \<rparr> \<rparr>"

text \<open>A click on a cell in a frame of no duration, alone or with the key A or S.\<close>

definition clickOnly :: "cell \<Rightarrow> frame" where
  "clickOnly c = \<lparr> input = noInput\<lparr> click := Some c \<rparr>, deltaTime = 0, random = noDraws \<rparr>"

definition clickWithA :: "cell \<Rightarrow> frame" where
  "clickWithA c = \<lparr> input = noInput\<lparr> click := Some c, keyA := True \<rparr>,
      deltaTime = 0, random = noDraws \<rparr>"

definition clickWithS :: "cell \<Rightarrow> frame" where
  "clickWithS c = \<lparr> input = noInput\<lparr> click := Some c, keyS := True \<rparr>,
      deltaTime = 0, random = noDraws \<rparr>"

text \<open>A frame without input that lasts as long as the delay of the AI.\<close>

definition waitForAI :: "int \<Rightarrow> frame" where
  "waitForAI k = \<lparr> input = noInput, deltaTime = 1,
      random = \<lparr> flip1 = 0.75, flip2 = 0.25, pick = k, perm = [] \<rparr> \<rparr>"

section \<open>Further vocabulary and concrete states\<close>

text \<open>The board with every cell of a list overwritten, in order.\<close>

definition boardSetAll :: "board \<Rightarrow> cell list \<Rightarrow> CellState \<Rightarrow> board" where
  "boardSetAll g cs v = foldl (\<lambda>b c. boardSet b c v) g cs"

text \<open>All legal capture targets of a side, in the order the loops visit them.\<close>

definition legalTargets :: "game \<Rightarrow> CellState \<Rightarrow> cell list" where
  "legalTargets s owner = filter (legalCapture s owner) (allCells (gridSize s))"

text \<open>The cells of the player with a neighbour owned by the AI, in visiting order.\<close>

definition attackableCells :: "game \<Rightarrow> cell list" where
  "attackableCells s =
     filter (\<lambda>c. cellAt s (fst c) (snd c) = PLAYER \<and> hasNeighbour s (fst c) (snd c) AI)
       (allCells (gridSize s))"

text \<open>
  The win target as \<open>checkWinCondition\<close> (lines 648-649) and \<open>renderGame\<close> (line 402)
  compute it. The dividend is positive, so the truncating division of C++ is \<open>div\<close>.
\<close>

definition targetCells :: "int \<Rightarrow> int" where
  "targetCells n = (n * n * WIN_PERCENTAGE + 99) div 100"

text \<open>
  The draws of an AI turn are values the library can return: the index drawn in
  \<open>getAIMove\<close> lies in \<open>[0, size - 1]\<close>, and \<open>std::shuffle\<close> applies a permutation
  of the vector it is given. Only the draw of the branch that runs is constrained.
\<close>

definition drawsInRange :: "draws \<Rightarrow> game \<Rightarrow> bool" where
  "drawsInRange rnd s \<longleftrightarrow>
     (if aiCharges s \<ge> impulseCost \<and> decideAIImpulseMode (flip1 rnd) = ATTACK
      then attackableCells s = [] \<or> isPermutation (perm rnd) (length (attackableCells s))
      else if aiCharges s \<ge> impulseCost \<and> decideAIImpulseMode (flip2 rnd) = SPEED
      then legalTargets s AI = [] \<or> isPermutation (perm rnd) (length (legalTargets s AI))
      else legalTargets s AI = [] \<or> 0 \<le> pick rnd \<and> pick rnd < int (length (legalTargets s AI)))"

text \<open>
  A session of size 7 after five rounds in which the player has walked along the row
  \<open>y = 0\<close> and the AI along the column \<open>x = 6\<close>. The grid is still the \<open>10 \<times> 10\<close>
  allocation of \<open>initializeGame\<close>, with the AI cell \<open>(9, 9)\<close> of the start-up grid left
  outside the \<open>7 \<times> 7\<close> area.
\<close>

definition round5Board :: board where
  "round5Board =
     replicate 6 (PLAYER # replicate 9 NEUTRAL)
     @ [NEUTRAL # replicate 6 AI @ replicate 3 NEUTRAL]
     @ replicate 2 (replicate 10 NEUTRAL)
     @ [replicate 9 NEUTRAL @ [AI]]"

definition round5 :: game where
  "round5 = \<lparr> currentState = PLAYING, gameResult = NONE, gridSize = 7,
      playerTurn = True, impulseModeActive = False, currentImpulseMode = IMPULSE_NONE,
      selectedGridSize = 0, grid = round5Board, playerCells = 6, aiCells = 6,
      playerCharges = 5, aiCharges = 5, aiTimer = 1, selectedCells = [] \<rparr>"

text \<open>
  The fresh session of size 7 of the specification's scenarios, on the \<open>10 \<times> 10\<close>
  allocation.
\<close>

definition fresh7 :: game where
  "fresh7 = \<lparr> currentState = PLAYING, gameResult = NONE, gridSize = 7,
      playerTurn = True, impulseModeActive = False, currentImpulseMode = IMPULSE_NONE,
      selectedGridSize = 0,
      grid = [PLAYER # replicate 9 NEUTRAL] @ replicate 5 (replicate 10 NEUTRAL)
        @ [replicate 6 NEUTRAL @ AI # replicate 3 NEUTRAL]
        @ replicate 2 (replicate 10 NEUTRAL) @ [replicate 9 NEUTRAL @ [AI]],
      playerCells = 1, aiCells = 1, playerCharges = 0, aiCharges = 0, aiTimer = 0,
      selectedCells = [] \<rparr>"

text \<open>The frames that lead from the start of the program to \<open>round5\<close>.\<close>

definition toRound5 :: "frame list" where
  "toRound5 = [pressBtn Btn7, pressBtn BtnStart, playRound (1, 0) 1, playRound (2, 0) 2,
      playRound (3, 0) 3, playRound (4, 0) 4, playRound (5, 0) 5]"

text \<open>
  Variants of \<open>round5\<close>: the two fronts in contact with an attack selection pending, a
  speed selection pending, the player short of charges, and the AI to move.
\<close>

definition contactBoard :: board where
  "contactBoard =
     [PLAYER # replicate 9 NEUTRAL]
     @ replicate 4 (PLAYER # replicate 9 NEUTRAL)
     @ [replicate 3 PLAYER @ replicate 7 NEUTRAL]
     @ [PLAYER # replicate 6 AI @ replicate 3 NEUTRAL]
     @ replicate 2 (replicate 10 NEUTRAL)
     @ [replicate 9 NEUTRAL @ [AI]]"

definition attackPending :: game where
  "attackPending = round5\<lparr> grid := contactBoard, playerCells := 9,
      impulseModeActive := True, currentImpulseMode := ATTACK, selectedCells := [(6, 1)] \<rparr>"

definition speedPending :: game where
  "speedPending = round5\<lparr> impulseModeActive := True, currentImpulseMode := SPEED,
      selectedCells := [(6, 0), (0, 1)] \<rparr>"


definition aiToMove :: game where
  "aiToMove = round5\<lparr> playerTurn := False, aiTimer := 0 \<rparr>"

text \<open>
  The start of a default session in which the player captures \<open>(1, 0)\<close> and \<open>(2, 0)\<close>
  and then, in one frame, clicks \<open>(3, 0)\<close> and presses the key A.
\<close>

definition strayFrames :: "frame list" where
  "strayFrames = [pressBtn BtnStart, playRound (1, 0) 0, playRound (2, 0) 0, clickWithA (3, 0)]"

definition strayBoard :: board where
  "strayBoard =
     replicate 4 (PLAYER # replicate 9 NEUTRAL)
     @ replicate 3 (replicate 10 NEUTRAL)
     @ replicate 3 (replicate 9 NEUTRAL @ [AI])"

definition stray :: game where
  "stray = \<lparr> currentState = PLAYING, gameResult = NONE, gridSize = 10,
      playerTurn = False, impulseModeActive = True, currentImpulseMode = ATTACK,
      selectedGridSize = 1, grid = strayBoard, playerCells = 4, aiCells = 3,
      playerCharges = 3, aiCharges = 2, aiTimer = 0, selectedCells = [] \<rparr>"

text \<open>
  From \<open>round5\<close>: the player clicks \<open>(0, 1)\<close> and presses the key S in one frame, then
  selects \<open>(6, 0)\<close>, which the AI captures in the same frame, then selects \<open>(1, 1)\<close>;
  \<open>beforeThird\<close> is the state before the third selection and \<open>miscounted\<close> the state
  after it.
\<close>

definition toBeforeThird :: "frame list" where
  "toBeforeThird = toRound5 @ [clickWithS (0, 1), playRound (6, 0) 6, clickOnly (1, 1)]"

definition beforeThird :: game where
  "beforeThird = round5\<lparr>
      grid := boardSet (boardSet round5Board (0, 1) PLAYER) (6, 0) AI,
      playerCells := 7, aiCells := 7, playerCharges := 6, aiCharges := 6,
      impulseModeActive := True, currentImpulseMode := SPEED,
      selectedCells := [(6, 0), (1, 1)] \<rparr>"

definition miscounted :: game where
  "miscounted = beforeThird\<lparr>
      grid := boardSetAll (grid beforeThird) [(6, 0), (1, 1), (0, 2)] PLAYER,
      playerCells := 10, playerCharges := 3, impulseModeActive := False,
      currentImpulseMode := IMPULSE_NONE, selectedCells := [], playerTurn := False,
      aiTimer := 0 \<rparr>"

text \<open>
  \<open>round5\<close> after one more round: the player has captured \<open>(6, 0)\<close>, the AI
  \<open>(5, 1)\<close>, and the two fronts touch.
\<close>

definition round6Board :: board where
  "round6Board =
     replicate 5 (PLAYER # replicate 9 NEUTRAL)
     @ [PLAYER # AI # replicate 8 NEUTRAL]
     @ [PLAYER # replicate 6 AI @ replicate 3 NEUTRAL]
     @ replicate 2 (replicate 10 NEUTRAL)
     @ [replicate 9 NEUTRAL @ [AI]]"

definition round6 :: game where
  "round6 = round5\<lparr> grid := round6Board, playerCells := 7, aiCells := 7,
      playerCharges := 6, aiCharges := 6 \<rparr>"




text \<open>\<open>round6\<close> with the AI to move.\<close>

definition aiContact :: game where
  "aiContact = round6\<lparr> playerTurn := False, aiTimer := 0 \<rparr>"

section \<open>Auxiliary facts\<close>

text \<open>Element access on a grid allocated for the current size.\<close>

lemma vecAt_Some: "0 \<le> i \<Longrightarrow> i < int (length v) \<Longrightarrow> vecAt v i = Some (v ! nat i)"
  by (simp add: vecAt_def)

lemma allocated_row:
  assumes "gridAllocated s" "inGrid s x y"
  shows "x < int (length (grid s))" and "y < int (length (grid s ! nat x))"
proof -
  from assms show rows: "x < int (length (grid s))"
    unfolding gridAllocated_def inGrid_def by linarith
  from assms have "nat x < length (take (nat (gridSize s)) (grid s))"
    unfolding gridAllocated_def inGrid_def length_take by linarith
  moreover from assms have "\<forall>i < length (take (nat (gridSize s)) (grid s)).
      gridSize s \<le> int (length (take (nat (gridSize s)) (grid s) ! i))"
    by (simp add: gridAllocated_def list_all_length)
  ultimately have "gridSize s \<le> int (length (take (nat (gridSize s)) (grid s) ! nat x))"
    by blast
  moreover from assms have "take (nat (gridSize s)) (grid s) ! nat x = grid s ! nat x"
    by (simp add: inGrid_def)
  ultimately show "y < int (length (grid s ! nat x))"
    using assms(2) by (simp add: inGrid_def)
qed

lemma gridGet_inGrid:
  assumes "gridAllocated s" "inGrid s x y"
  shows "gridGet (grid s) x y = Some (cellAt s x y)"
  using allocated_row [OF assms] assms(2)
  by (simp add: gridGet_def vecAt_def cellAt_def inGrid_def)

lemma gridSet_inGrid:
  assumes "gridAllocated s" "inGrid s x y"
  shows "gridSet (grid s) x y v = Some (boardSet (grid s) (x, y) v)"
  using allocated_row [OF assms] assms(2)
  by (simp add: gridSet_def vecAt_def boardSet_def inGrid_def)

lemma gridAllocated_boardSet:
  assumes "gridAllocated s"
  shows "gridAllocated (s\<lparr> grid := boardSet (grid s) c v \<rparr>)"
proof -
  have "length (boardSet (grid s) c v ! i) = length (grid s ! i)" for i
    by (cases "i = nat (fst c)"; cases "i < length (grid s)")
      (simp_all add: boardSet_def list_update_beyond not_less)
  then show ?thesis using assms
    by (simp add: gridAllocated_def list_all_length boardSet_def)
qed

lemma getAdjacentCells_inGrid:
  "(ax, ay) \<in> set (getAdjacentCells s x y) \<Longrightarrow> inGrid s ax ay"
  by (auto simp add: getAdjacentCells_def split: if_splits)

lemma getAdjacentCells_owned:
  "(\<exists>c \<in> set (getAdjacentCells s x y). cellAt s (fst c) (snd c) = owner) \<longleftrightarrow> hasNeighbour s x y owner"
  by (auto simp add: getAdjacentCells_def hasNeighbour_def ownedAt_def)

lemma anyOwned_inGrid:
  assumes "gridAllocated s" "\<forall>c \<in> set adj. inGrid s (fst c) (snd c)"
  shows "anyOwned (grid s) adj owner = Some (\<exists>c \<in> set adj. cellAt s (fst c) (snd c) = owner)"
  using assms(2)
proof (induction adj)
  case Nil
  show ?case by simp
next
  case (Cons a adj)
  obtain ax ay where a: "a = (ax, ay)" by (cases a)
  with Cons.prems have "inGrid s ax ay" by simp
  then have "gridGet (grid s) ax ay = Some (cellAt s ax ay)"
    using assms(1) by (rule gridGet_inGrid [rotated])
  with Cons a show ?case by simp
qed

lemma anyOwned_adjacent:
  assumes "gridAllocated s"
  shows "anyOwned (grid s) (getAdjacentCells s x y) owner = Some (hasNeighbour s x y owner)"
proof -
  have "\<forall>c \<in> set (getAdjacentCells s x y). inGrid s (fst c) (snd c)"
    using getAdjacentCells_inGrid by auto
  from anyOwned_inGrid [OF assms this] show ?thesis
    by (simp add: getAdjacentCells_owned)
qed

lemma isValidMove_legal:
  assumes "gridAllocated s"
  shows "isValidMove s x y owner = Some (legalCapture s owner (x, y))"
proof (cases "inGrid s x y")
  case False
  then show ?thesis by (auto simp add: isValidMove_def legalCapture_def inGrid_def)
next
  case True
  then have "\<not> (x < 0 \<or> x \<ge> gridSize s \<or> y < 0 \<or> y \<ge> gridSize s)"
    by (auto simp add: inGrid_def)
  then show ?thesis
    using True gridGet_inGrid [OF assms True] anyOwned_adjacent [OF assms]
    by (simp add: isValidMove_def legalCapture_def)
qed

lemma scanCells_filter:
  assumes "gridAllocated s" "\<forall>c \<in> set cs. inGrid s (fst c) (snd c)"
  shows "scanCells s want owner cs =
     Some (filter (\<lambda>c. cellAt s (fst c) (snd c) = want \<and> hasNeighbour s (fst c) (snd c) owner) cs)"
  using assms(2)
proof (induction cs)
  case Nil
  show ?case by simp
next
  case (Cons a cs)
  obtain x y where a: "a = (x, y)" by (cases a)
  with Cons.prems have "inGrid s x y" by simp
  then have "gridGet (grid s) x y = Some (cellAt s x y)"
    using assms(1) by (rule gridGet_inGrid [rotated])
  with Cons a anyOwned_adjacent [OF assms(1)] show ?case by simp
qed

lemma set_allCells: "set (allCells n) = {c. 0 \<le> fst c \<and> fst c < n \<and> 0 \<le> snd c \<and> snd c < n}"
  by (auto simp add: allCells_def)

lemma distinct_allCells: "distinct (allCells n)"
  by (simp add: allCells_def distinct_product)

lemma allCells_inGrid: "\<forall>c \<in> set (allCells (gridSize s)). inGrid s (fst c) (snd c)"
  by (simp add: set_allCells inGrid_def)

lemma getAvailableMoves_legal:
  assumes "gridAllocated s"
  shows "getAvailableMoves s owner = Some (filter (legalCapture s owner) (allCells (gridSize s)))"
proof -
  have "filter (\<lambda>c. cellAt s (fst c) (snd c) = NEUTRAL \<and> hasNeighbour s (fst c) (snd c) owner)
          (allCells (gridSize s)) = filter (legalCapture s owner) (allCells (gridSize s))"
    using allCells_inGrid [of s] by (intro filter_cong) (auto simp add: legalCapture_def)
  then show ?thesis
    using scanCells_filter [OF assms allCells_inGrid] by (simp add: getAvailableMoves_def)
qed

lemma vecAt_list_update:
  assumes "0 \<le> i" "i < int (length xs)"
  shows "vecAt (xs[nat i := a]) k = (if k = i then Some a else vecAt xs k)"
proof (cases "0 \<le> k \<and> k < int (length xs)")
  case False
  with assms show ?thesis by (auto simp add: vecAt_def)
next
  case True
  with assms have "(nat i = nat k) = (k = i)" "nat k < length xs" "nat i < length xs"
    by linarith+
  with True show ?thesis by (simp add: vecAt_def nth_list_update)
qed

lemma gridGet_boardSet:
  assumes "gridGet g (fst c) (snd c) \<noteq> None"
  shows "gridGet (boardSet g c v) x y =
     (if x = fst c \<and> y = snd c then Some v else gridGet g x y)"
proof -
  from assms have cx: "0 \<le> fst c" "fst c < int (length g)"
    by (auto simp add: gridGet_def vecAt_def split: if_splits)
  then have row: "vecAt g (fst c) = Some (g ! nat (fst c))" by (simp add: vecAt_def)
  with assms have cy: "0 \<le> snd c" "snd c < int (length (g ! nat (fst c)))"
    by (auto simp add: gridGet_def vecAt_def split: if_splits)
  have "gridGet (boardSet g c v) x y =
      (if x = fst c then vecAt ((g ! nat (fst c))[nat (snd c) := v]) y else gridGet g x y)"
    unfolding gridGet_def boardSet_def vecAt_list_update [OF cx] by simp
  also have "\<dots> = (if x = fst c \<and> y = snd c then Some v else gridGet g x y)"
    unfolding vecAt_list_update [OF cy] using row by (simp add: gridGet_def)
  finally show ?thesis .
qed

lemma gridGet_boardSet_same:
  assumes "gridAllocated s" "inGrid s (fst c) (snd c)"
  shows "gridGet (boardSet (grid s) c v) (fst c) (snd c) = Some v"
  using gridGet_inGrid [OF assms] by (simp add: gridGet_boardSet)

lemma gridGet_boardSet_two:
  assumes "gridAllocated s" "inGrid s (fst c1) (snd c1)" "inGrid s (fst c) (snd c)"
  shows "gridGet (boardSet (boardSet (grid s) c1 v) c v) (fst c1) (snd c1) = Some v"
    and "gridGet (boardSet (boardSet (grid s) c1 v) c v) (fst c) (snd c) = Some v"
proof -
  have inner: "gridGet (boardSet (grid s) c1 v) x y \<noteq> None" if "inGrid s x y" for x y
    using gridGet_inGrid [OF assms(1,2)] gridGet_inGrid [OF assms(1) that]
    by (simp add: gridGet_boardSet)
  from inner [OF assms(3)] gridGet_boardSet_same [OF assms(1,2), of v]
  show "gridGet (boardSet (boardSet (grid s) c1 v) c v) (fst c1) (snd c1) = Some v"
    and "gridGet (boardSet (boardSet (grid s) c1 v) c v) (fst c) (snd c) = Some v"
    by (simp_all add: gridGet_boardSet)
qed

lemma gridGet_boardSet_three:
  assumes "gridAllocated s" "inGrid s (fst c1) (snd c1)" "inGrid s (fst c2) (snd c2)"
    and "inGrid s (fst c) (snd c)"
  shows "gridGet (boardSet (boardSet (boardSet (grid s) c1 v) c2 v) c v) (fst c1) (snd c1) = Some v"
    and "gridGet (boardSet (boardSet (boardSet (grid s) c1 v) c2 v) c v) (fst c2) (snd c2) = Some v"
    and "gridGet (boardSet (boardSet (boardSet (grid s) c1 v) c2 v) c v) (fst c) (snd c) = Some v"
proof -
  have inner: "gridGet (boardSet (grid s) c1 v) x y \<noteq> None" if "inGrid s x y" for x y
    using gridGet_inGrid [OF assms(1,2)] gridGet_inGrid [OF assms(1) that]
    by (simp add: gridGet_boardSet)
  have inner2: "gridGet (boardSet (boardSet (grid s) c1 v) c2 v) x y \<noteq> None"
    if "inGrid s x y" for x y
    using inner [OF assms(3)] inner [OF that] by (simp add: gridGet_boardSet)
  from inner2 [OF assms(4)] gridGet_boardSet_two [OF assms(1,2,3), of v]
  show "gridGet (boardSet (boardSet (boardSet (grid s) c1 v) c2 v) c v) (fst c1) (snd c1) = Some v"
    and "gridGet (boardSet (boardSet (boardSet (grid s) c1 v) c2 v) c v) (fst c2) (snd c2) = Some v"
    and "gridGet (boardSet (boardSet (boardSet (grid s) c1 v) c2 v) c v) (fst c) (snd c) = Some v"
    by (simp_all add: gridGet_boardSet)
qed

text \<open>The capture loops on cells inside the grid.\<close>

lemma inGrid_cong: "gridSize s' = gridSize s \<Longrightarrow> inGrid s' x y = inGrid s x y"
  by (simp add: inGrid_def)

lemma gridAllocated_update:
  assumes "gridAllocated s" "gridSize s' = gridSize s" "grid s' = boardSet (grid s) c v"
  shows "gridAllocated s'"
proof -
  have "gridAllocated (s\<lparr> grid := boardSet (grid s) c v \<rparr>)"
    using assms(1) by (rule gridAllocated_boardSet)
  then show ?thesis using assms(2,3) by (simp add: gridAllocated_def)
qed

lemma playerTakeFromAI_inGrid:
  assumes "gridAllocated s" "\<forall>c \<in> set cs. inGrid s (fst c) (snd c)"
  shows "playerTakeFromAI cs s = Some (s\<lparr> grid := boardSetAll (grid s) cs PLAYER,
      aiCells := aiCells s - int (length cs), playerCells := playerCells s + int (length cs) \<rparr>)"
  using assms
proof (induction cs arbitrary: s)
  case Nil
  show ?case by (simp add: boardSetAll_def)
next
  case (Cons a cs)
  obtain x y where a: "a = (x, y)" by (cases a)
  let ?s' = "s\<lparr> grid := boardSet (grid s) (x, y) PLAYER, aiCells := aiCells s - 1,
      playerCells := playerCells s + 1 \<rparr>"
  from Cons.prems a have set1: "gridSet (grid s) x y PLAYER = Some (boardSet (grid s) (x, y) PLAYER)"
    by (simp add: gridSet_inGrid)
  have alloc: "gridAllocated ?s'"
    using Cons.prems(1) by (rule gridAllocated_update) simp_all
  have "\<forall>c \<in> set cs. inGrid ?s' (fst c) (snd c)"
    using Cons.prems(2) by (simp add: inGrid_def)
  from Cons.IH [OF alloc this] set1 a show ?case
    by (simp add: boardSetAll_def)
qed

lemma playerTakeNeutral_inGrid:
  assumes "gridAllocated s" "\<forall>c \<in> set cs. inGrid s (fst c) (snd c)"
  shows "playerTakeNeutral cs s = Some (s\<lparr> grid := boardSetAll (grid s) cs PLAYER,
      playerCells := playerCells s + int (length cs) \<rparr>)"
  using assms
proof (induction cs arbitrary: s)
  case Nil
  show ?case by (simp add: boardSetAll_def)
next
  case (Cons a cs)
  obtain x y where a: "a = (x, y)" by (cases a)
  let ?s' = "s\<lparr> grid := boardSet (grid s) (x, y) PLAYER, playerCells := playerCells s + 1 \<rparr>"
  from Cons.prems a have set1: "gridSet (grid s) x y PLAYER = Some (boardSet (grid s) (x, y) PLAYER)"
    by (simp add: gridSet_inGrid)
  have alloc: "gridAllocated ?s'"
    using Cons.prems(1) by (rule gridAllocated_update) simp_all
  have "\<forall>c \<in> set cs. inGrid ?s' (fst c) (snd c)"
    using Cons.prems(2) by (simp add: inGrid_def)
  from Cons.IH [OF alloc this] set1 a show ?case
    by (simp add: boardSetAll_def)
qed



text \<open>The steps of an impulse selection.\<close>

lemma handleImpulse_attack:
  assumes "gridAllocated s" "currentImpulseMode s = ATTACK" "inGrid s x y"
  shows "handleImpulseCellSelection x y s =
     (if attackTarget s (x, y) then selectAttackTarget x y s else Some s)"
  using assms gridGet_inGrid [OF assms(1,3)] anyOwned_adjacent [OF assms(1), of x y PLAYER]
  by (simp add: handleImpulseCellSelection_def attackTarget_def)

lemma handleImpulse_speed:
  assumes "gridAllocated s" "currentImpulseMode s = SPEED" "inGrid s x y"
  shows "handleImpulseCellSelection x y s =
     (if legalCapture s PLAYER (x, y) then selectSpeedTarget x y s else Some s)"
  using assms gridGet_inGrid [OF assms(1,3)] isValidMove_legal [OF assms(1), of x y PLAYER]
  by (auto simp add: handleImpulseCellSelection_def legalCapture_def)

lemma impulse_frame:
  assumes "currentState s = PLAYING" "impulseModeActive s" "click inp = Some (x, y)"
  shows "handleInput inp s =
     (if inGrid s x y then handleImpulseCellSelection x y s else Some s)"
  using assms by (auto simp add: handleInput_def impulseClick_def inGrid_def)

lemma selectAttack_first:
  assumes "selectedCells s = []"
  shows "selectAttackTarget x y s = Some (s\<lparr> selectedCells := [(x, y)] \<rparr>)"
  using assms by (simp add: selectAttackTarget_def alreadySelected_def)

lemma selectAttack_again:
  assumes "(x, y) \<in> set (selectedCells s)" "length (selectedCells s) < 2"
  shows "selectAttackTarget x y s = Some s"
  using assms by (simp add: selectAttackTarget_def alreadySelected_def)

lemma selectAttack_second:
  assumes "gridAllocated s" "selectedCells s = [c1]" "c1 \<noteq> (x, y)"
    and "inGrid s (fst c1) (snd c1)" "inGrid s x y"
  shows "selectAttackTarget x y s = Some (s\<lparr>
      grid := boardSet (boardSet (grid s) c1 PLAYER) (x, y) PLAYER,
      aiCells := aiCells s - 2, playerCells := playerCells s + 2,
      playerCharges := playerCharges s - impulseCost,
      impulseModeActive := False, currentImpulseMode := IMPULSE_NONE, selectedCells := [],
      playerTurn := False, aiTimer := 0 \<rparr>)"
proof -
  let ?s1 = "s\<lparr> selectedCells := [c1, (x, y)] \<rparr>"
  have alloc: "gridAllocated ?s1" using assms(1) by (simp add: gridAllocated_def)
  have "\<forall>c \<in> set [c1, (x, y)]. inGrid ?s1 (fst c) (snd c)"
    using assms(4,5) by (simp add: inGrid_def)
  from playerTakeFromAI_inGrid [OF alloc this]
  show ?thesis using assms(2,3)
    by (simp add: selectAttackTarget_def alreadySelected_def finishImpulseMode_def boardSetAll_def)
qed

lemma selectSpeed_more:
  assumes "(x, y) \<notin> set (selectedCells s)" "length (selectedCells s) < 2"
  shows "selectSpeedTarget x y s = Some (s\<lparr> selectedCells := selectedCells s @ [(x, y)] \<rparr>)"
  using assms by (simp add: selectSpeedTarget_def alreadySelected_def)

lemma selectSpeed_again:
  assumes "(x, y) \<in> set (selectedCells s)" "length (selectedCells s) < 3"
  shows "selectSpeedTarget x y s = Some s"
  using assms by (simp add: selectSpeedTarget_def alreadySelected_def)

lemma selectSpeed_third:
  assumes "gridAllocated s" "selectedCells s = [c1, c2]" "c1 \<noteq> (x, y)" "c2 \<noteq> (x, y)"
    and "inGrid s (fst c1) (snd c1)" "inGrid s (fst c2) (snd c2)" "inGrid s x y"
  shows "selectSpeedTarget x y s = Some (s\<lparr>
      grid := boardSet (boardSet (boardSet (grid s) c1 PLAYER) c2 PLAYER) (x, y) PLAYER,
      playerCells := playerCells s + 3,
      playerCharges := playerCharges s - impulseCost,
      impulseModeActive := False, currentImpulseMode := IMPULSE_NONE, selectedCells := [],
      playerTurn := False, aiTimer := 0 \<rparr>)"
proof -
  let ?s1 = "s\<lparr> selectedCells := [c1, c2, (x, y)] \<rparr>"
  have alloc: "gridAllocated ?s1" using assms(1) by (simp add: gridAllocated_def)
  have "\<forall>c \<in> set [c1, c2, (x, y)]. inGrid ?s1 (fst c) (snd c)"
    using assms(5,6,7) by (simp add: inGrid_def)
  from playerTakeNeutral_inGrid [OF alloc this]
  show ?thesis using assms(2,3,4)
    by (simp add: selectSpeedTarget_def alreadySelected_def finishImpulseMode_def boardSetAll_def)
qed

lemma enter_impulse:
  assumes "currentState s = PLAYING" "playerTurn s" "\<not> impulseModeActive s" "click inp = None"
  shows "handleInput inp s = Some (if playerCharges s \<ge> impulseCost
       then (if keyA inp then s\<lparr> impulseModeActive := True, currentImpulseMode := ATTACK, selectedCells := [] \<rparr>
             else if keyS inp then s\<lparr> impulseModeActive := True, currentImpulseMode := SPEED, selectedCells := [] \<rparr>
             else s)
       else s)"
  using assms
  by (simp add: handleInput_def clickCapture_def impulseKeys_def impulseClick_def startImpulseMode_def)

lemma speed_frame:
  assumes "currentState s = PLAYING" "gridAllocated s"
    and "impulseModeActive s" "currentImpulseMode s = SPEED" "click inp = Some (x, y)"
  shows "handleInput inp s =
     (if legalCapture s PLAYER (x, y) then selectSpeedTarget x y s else Some s)"
proof (cases "inGrid s x y")
  case True
  then show ?thesis
    using assms impulse_frame [OF assms(1,3,5)] handleImpulse_speed [OF assms(2,4)] by simp
next
  case False
  then show ?thesis
    using assms impulse_frame [OF assms(1,3,5)] by (simp add: legalCapture_def)
qed


text \<open>The ordinary capture of the AI.\<close>

lemma legalTargets_inGrid: "c \<in> set (legalTargets s owner) \<Longrightarrow> inGrid s (fst c) (snd c)"
  by (simp add: legalTargets_def legalCapture_def)

lemma attackableCells_inGrid: "c \<in> set (attackableCells s) \<Longrightarrow> inGrid s (fst c) (snd c)"
  using allCells_inGrid [of s] by (simp add: attackableCells_def)

lemma legalCapture_timer: "legalCapture (s\<lparr> aiTimer := t \<rparr>) owner = legalCapture s owner"
  by (rule ext)
    (simp add: legalCapture_def inGrid_def cellAt_def hasNeighbour_def ownedAt_def)

lemma legalTargets_timer [simp]: "legalTargets (s\<lparr> aiTimer := t \<rparr>) owner = legalTargets s owner"
  by (simp add: legalTargets_def legalCapture_timer)

lemma attackableCells_timer [simp]: "attackableCells (s\<lparr> aiTimer := t \<rparr>) = attackableCells s"
  by (simp add: attackableCells_def inGrid_def cellAt_def hasNeighbour_def ownedAt_def)

lemma gridAllocated_timer [simp]: "gridAllocated (s\<lparr> aiTimer := t \<rparr>) = gridAllocated s"
  by (simp add: gridAllocated_def)

lemma getAvailableMoves_targets:
  "gridAllocated s \<Longrightarrow> getAvailableMoves s owner = Some (legalTargets s owner)"
  by (simp add: getAvailableMoves_legal legalTargets_def)

lemma aiCaptureBranch_result:
  assumes "gridAllocated s"
  shows "aiCaptureBranch rnd s =
     (if legalTargets s AI = [] then Some s
      else if 0 \<le> pick rnd \<and> pick rnd < int (length (legalTargets s AI))
      then Some (s\<lparr> grid := boardSet (grid s) (legalTargets s AI ! nat (pick rnd)) AI,
                     aiCells := aiCells s + 1, aiCharges := aiCharges s + 1 \<rparr>)
      else None)"
proof (cases "legalTargets s AI \<noteq> [] \<and> 0 \<le> pick rnd \<and> pick rnd < int (length (legalTargets s AI))")
  case True
  let ?m = "legalTargets s AI ! nat (pick rnd)"
  from True have "nat (pick rnd) < length (legalTargets s AI)" by linarith
  then have "?m \<in> set (legalTargets s AI)" by (rule nth_mem)
  then have inG: "inGrid s (fst ?m) (snd ?m)" by (rule legalTargets_inGrid)
  then have "fst ?m \<noteq> -1" by (simp add: inGrid_def)
  then show ?thesis
    using True getAvailableMoves_targets [OF assms, of AI] gridSet_inGrid [OF assms inG]
    by (simp add: aiCaptureBranch_def getAIMove_def vecAt_def)
next
  case False
  then show ?thesis
    using getAvailableMoves_targets [OF assms, of AI]
    by (auto simp add: aiCaptureBranch_def getAIMove_def vecAt_def)
qed

lemma processAITurn_ordinary:
  assumes "gridAllocated s" "aiTimer s + dt \<ge> AI_DELAY"
    and "aiCharges s < impulseCost
       \<or> decideAIImpulseMode (flip1 rnd) \<noteq> ATTACK \<and> decideAIImpulseMode (flip2 rnd) \<noteq> SPEED"
  shows "processAITurn dt rnd s =
     (if legalTargets s AI = []
      then Some (checkWinCondition (s\<lparr> aiTimer := aiTimer s + dt, playerTurn := True \<rparr>))
      else if 0 \<le> pick rnd \<and> pick rnd < int (length (legalTargets s AI))
      then Some (checkWinCondition (s\<lparr> aiTimer := aiTimer s + dt,
                  grid := boardSet (grid s) (legalTargets s AI ! nat (pick rnd)) AI,
                  aiCells := aiCells s + 1, aiCharges := aiCharges s + 1,
                  playerTurn := True \<rparr>))
      else None)"
proof -
  let ?s = "s\<lparr> aiTimer := aiTimer s + dt \<rparr>"
  have alloc: "gridAllocated ?s" using assms(1) by simp
  have "processAITurn dt rnd s =
      aiCaptureBranch rnd ?s \<bind> (\<lambda>s1. Some (checkWinCondition (s1\<lparr> playerTurn := True \<rparr>)))"
    using assms(2,3) by (auto simp add: processAITurn_def Let_def)
  then show ?thesis
    using aiCaptureBranch_result [OF alloc, of rnd] by simp
qed


lemma round5_alloc: "gridAllocated round5"
  by code_simp

lemma fresh7_run: "(programStart \<bind> runFrames [pressBtn Btn7, pressBtn BtnStart]) = Some fresh7"
  by code_simp

lemma clickOnly_input:
  "click (input (clickOnly c)) = Some c" "\<not> keyA (input (clickOnly c))"
  "\<not> keyS (input (clickOnly c))"
  by (simp_all add: clickOnly_def noInput_def)

lemma legalTargets_set: "set (legalTargets s owner) = {c. legalCapture s owner c}"
  by (auto simp add: legalTargets_def set_allCells legalCapture_def inGrid_def)

lemma legalTargets_distinct: "distinct (legalTargets s owner)"
  by (simp add: legalTargets_def distinct_allCells)

lemma aiToMove_targets:
  "legalTargets aiToMove AI = [(5, 1), (5, 2), (5, 3), (5, 4), (5, 5), (5, 6), (6, 0)]"
  by code_simp

lemma aiToMove_alloc: "gridAllocated aiToMove"
  by code_simp

text \<open>An AI turn with draws in range returns a state.\<close>

lemma shuffle_permutation:
  assumes "isPermutation p (length v)"
  shows "shuffle p v = Some (map (\<lambda>i. v ! i) p)"
    and "length (map (\<lambda>i. v ! i) p) = length v"
    and "set (map (\<lambda>i. v ! i) p) \<subseteq> set v"
  using assms by (auto simp add: shuffle_def isPermutation_def list_all_iff)

lemma attackable_scan:
  assumes "gridAllocated s"
  shows "scanCells s PLAYER AI (allCells (gridSize s)) = Some (attackableCells s)"
  using scanCells_filter [OF assms allCells_inGrid] by (simp add: attackableCells_def)

lemma getAIAttackMove_some:
  assumes "gridAllocated s"
    and "attackableCells s = [] \<or> isPermutation (perm rnd) (length (attackableCells s))"
  shows "\<exists>cs. getAIAttackMove rnd s = Some cs \<and> set cs \<subseteq> set (attackableCells s)
     \<and> (cs = [] \<longleftrightarrow> attackableCells s = [])"
proof (cases "attackableCells s = []")
  case True
  then show ?thesis using attackable_scan [OF assms(1)] by (simp add: getAIAttackMove_def)
next
  case False
  with assms(2) have p: "isPermutation (perm rnd) (length (attackableCells s))" by simp
  obtain sh where sh: "shuffle (perm rnd) (attackableCells s) = Some sh"
      "length sh = length (attackableCells s)" "set sh \<subseteq> set (attackableCells s)"
    using shuffle_permutation [OF p] by blast
  note scan = attackable_scan [OF assms(1)]
  show ?thesis
  proof (cases sh)
    case Nil
    with sh(2) False show ?thesis by simp
  next
    case (Cons a t)
    show ?thesis
    proof (cases t)
      case Nil
      with Cons sh(1,3) scan False show ?thesis
        by (simp add: getAIAttackMove_def vecAt_def)
    next
      case (Cons b u)
      with \<open>sh = a # t\<close> sh(1,3) scan False show ?thesis
        by (simp add: getAIAttackMove_def vecAt_def)
    qed
  qed
qed

lemma getAISpeedMove_some:
  assumes "gridAllocated s"
    and "legalTargets s AI = [] \<or> isPermutation (perm rnd) (length (legalTargets s AI))"
  shows "\<exists>cs. getAISpeedMove rnd s = Some cs \<and> set cs \<subseteq> set (legalTargets s AI)
     \<and> (cs = [] \<longleftrightarrow> legalTargets s AI = [])"
proof (cases "legalTargets s AI = []")
  case True
  then show ?thesis
    using getAvailableMoves_targets [OF assms(1), of AI] by (simp add: getAISpeedMove_def)
next
  case False
  with assms(2) have p: "isPermutation (perm rnd) (length (legalTargets s AI))" by simp
  obtain sh where sh: "shuffle (perm rnd) (legalTargets s AI) = Some sh"
      "length sh = length (legalTargets s AI)" "set sh \<subseteq> set (legalTargets s AI)"
    using shuffle_permutation [OF p] by blast
  note scan = getAvailableMoves_targets [OF assms(1), of AI]
  show ?thesis
  proof (cases sh)
    case Nil
    with sh(2) False show ?thesis by simp
  next
    case (Cons a t)
    note sh_a = Cons
    show ?thesis
    proof (cases t)
      case Nil
      with sh_a sh(1,3) scan False show ?thesis
        by (simp add: getAISpeedMove_def vecAt_def)
    next
      case (Cons b u)
      note t_b = Cons
      show ?thesis
      proof (cases u)
        case Nil
        with sh_a t_b sh(1,3) scan False show ?thesis
          by (simp add: getAISpeedMove_def vecAt_def)
      next
        case (Cons c w)
        with sh_a t_b sh(1,3) scan False show ?thesis
          by (simp add: getAISpeedMove_def vecAt_def)
      qed
    qed
  qed
qed

lemma aiTakeFromPlayer_some:
  assumes "gridAllocated s" "\<forall>c \<in> set cs. inGrid s (fst c) (snd c)"
  shows "\<exists>s'. aiTakeFromPlayer cs s = Some s' \<and> gameResult s' = gameResult s
     \<and> gridSize s' = gridSize s \<and> aiCharges s' = aiCharges s"
  using assms
proof (induction cs arbitrary: s)
  case Nil
  show ?case by simp
next
  case (Cons a cs)
  obtain x y where a: "a = (x, y)" by (cases a)
  let ?s' = "s\<lparr> grid := boardSet (grid s) (x, y) AI, playerCells := playerCells s - 1,
      aiCells := aiCells s + 1 \<rparr>"
  from Cons.prems a have inG: "inGrid s x y" by simp
  then have x: "x \<noteq> -1" by (simp add: inGrid_def)
  have set1: "gridSet (grid s) x y AI = Some (boardSet (grid s) (x, y) AI)"
    using Cons.prems(1) inG by (rule gridSet_inGrid)
  have alloc: "gridAllocated ?s'"
    using Cons.prems(1) by (rule gridAllocated_update) simp_all
  have "\<forall>c \<in> set cs. inGrid ?s' (fst c) (snd c)"
    using Cons.prems(2) by (simp add: inGrid_def)
  from Cons.IH [OF alloc this] set1 a x show ?case by simp
qed

lemma aiTakeNeutral_some:
  assumes "gridAllocated s" "\<forall>c \<in> set cs. inGrid s (fst c) (snd c)"
  shows "\<exists>s'. aiTakeNeutral cs s = Some s' \<and> gameResult s' = gameResult s
     \<and> gridSize s' = gridSize s \<and> aiCharges s' = aiCharges s"
  using assms
proof (induction cs arbitrary: s)
  case Nil
  show ?case by simp
next
  case (Cons a cs)
  obtain x y where a: "a = (x, y)" by (cases a)
  let ?s' = "s\<lparr> grid := boardSet (grid s) (x, y) AI, aiCells := aiCells s + 1 \<rparr>"
  from Cons.prems a have inG: "inGrid s x y" by simp
  then have x: "x \<noteq> -1" by (simp add: inGrid_def)
  have set1: "gridSet (grid s) x y AI = Some (boardSet (grid s) (x, y) AI)"
    using Cons.prems(1) inG by (rule gridSet_inGrid)
  have alloc: "gridAllocated ?s'"
    using Cons.prems(1) by (rule gridAllocated_update) simp_all
  have "\<forall>c \<in> set cs. inGrid ?s' (fst c) (snd c)"
    using Cons.prems(2) by (simp add: inGrid_def)
  from Cons.IH [OF alloc this] set1 a x show ?case by simp
qed

lemma aiAttackBranch_some:
  assumes "gridAllocated s"
    and "attackableCells s = [] \<or> isPermutation (perm rnd) (length (attackableCells s))"
  shows "\<exists>s'. aiAttackBranch rnd s = Some s' \<and> gameResult s' = gameResult s
     \<and> gridSize s' = gridSize s"
proof -
  from getAIAttackMove_some [OF assms] obtain cs where
    cs: "getAIAttackMove rnd s = Some cs" "set cs \<subseteq> set (attackableCells s)" by blast
  from cs(2) have "\<forall>c \<in> set cs. inGrid s (fst c) (snd c)"
    using attackableCells_inGrid by blast
  from aiTakeFromPlayer_some [OF assms(1) this] cs(1) show ?thesis
    by (auto simp add: aiAttackBranch_def)
qed

lemma aiSpeedBranch_some:
  assumes "gridAllocated s"
    and "legalTargets s AI = [] \<or> isPermutation (perm rnd) (length (legalTargets s AI))"
  shows "\<exists>s'. aiSpeedBranch rnd s = Some s' \<and> gameResult s' = gameResult s
     \<and> gridSize s' = gridSize s"
proof -
  from getAISpeedMove_some [OF assms] obtain cs where
    cs: "getAISpeedMove rnd s = Some cs" "set cs \<subseteq> set (legalTargets s AI)" by blast
  from cs(2) have "\<forall>c \<in> set cs. inGrid s (fst c) (snd c)"
    using legalTargets_inGrid by blast
  from aiTakeNeutral_some [OF assms(1) this] cs(1) show ?thesis
    by (auto simp add: aiSpeedBranch_def)
qed

lemma aiCaptureBranch_some:
  assumes "gridAllocated s"
    and "legalTargets s AI = [] \<or> 0 \<le> pick rnd \<and> pick rnd < int (length (legalTargets s AI))"
  shows "\<exists>s'. aiCaptureBranch rnd s = Some s' \<and> gameResult s' = gameResult s
     \<and> gridSize s' = gridSize s"
  using assms(2) aiCaptureBranch_result [OF assms(1), of rnd] by auto

lemma processAITurn_total:
  assumes "gridAllocated s" "drawsInRange rnd s" "aiTimer s + dt \<ge> AI_DELAY"
  shows "\<exists>s1. processAITurn dt rnd s = Some (checkWinCondition s1)
     \<and> gameResult s1 = gameResult s \<and> gridSize s1 = gridSize s \<and> playerTurn s1"
proof -
  let ?s = "s\<lparr> aiTimer := aiTimer s + dt \<rparr>"
  have alloc: "gridAllocated ?s" using assms(1) by simp
  have "\<exists>s'. (if aiCharges ?s \<ge> impulseCost \<and> decideAIImpulseMode (flip1 rnd) = ATTACK
               then aiAttackBranch rnd ?s
               else if aiCharges ?s \<ge> impulseCost \<and> decideAIImpulseMode (flip2 rnd) = SPEED
               then aiSpeedBranch rnd ?s
               else aiCaptureBranch rnd ?s) = Some s'
      \<and> gameResult s' = gameResult s \<and> gridSize s' = gridSize s"
    using assms(2) aiAttackBranch_some [OF alloc, of rnd] aiSpeedBranch_some [OF alloc, of rnd]
      aiCaptureBranch_some [OF alloc, of rnd]
    by (simp add: drawsInRange_def)
  then obtain s' where s': "(if aiCharges ?s \<ge> impulseCost \<and> decideAIImpulseMode (flip1 rnd) = ATTACK
               then aiAttackBranch rnd ?s
               else if aiCharges ?s \<ge> impulseCost \<and> decideAIImpulseMode (flip2 rnd) = SPEED
               then aiSpeedBranch rnd ?s
               else aiCaptureBranch rnd ?s) = Some s'"
     "gameResult s' = gameResult s" "gridSize s' = gridSize s" by blast
  have "processAITurn dt rnd s = Some (checkWinCondition (s'\<lparr> playerTurn := True \<rparr>))"
    using assms(3) s'(1) by (simp add: processAITurn_def Let_def)
  with s'(2,3) show ?thesis by (intro exI [of _ "s'\<lparr> playerTurn := True \<rparr>"]) simp
qed

lemma checkWinCondition_result:
  "gameResult (checkWinCondition s) =
     (if resultFor (targetCells (gridSize s)) (playerCells s) (aiCells s) = NONE
      then gameResult s
      else resultFor (targetCells (gridSize s)) (playerCells s) (aiCells s))"
  by (simp add: checkWinCondition_def resultFor_def targetCells_def Let_def)

lemma checkWinCondition_fields:
  "gridSize (checkWinCondition s) = gridSize s"
  "playerCells (checkWinCondition s) = playerCells s"
  "aiCells (checkWinCondition s) = aiCells s"
  by (simp_all add: checkWinCondition_def Let_def)

lemma ceiling_div_100: "(a + 99) div 100 = \<lceil>real_of_int a / 100\<rceil>"
proof -
  define z where "z = (a + 99) div 100"
  define r where "r = (a + 99) mod 100"
  have "a + 99 = 100 * z + r" unfolding z_def r_def by simp
  moreover have "0 \<le> r" "r < 100" unfolding r_def by simp_all
  ultimately have "100 * z - 100 < a" "a \<le> 100 * z" by linarith+
  then have "real_of_int (100 * z - 100) < real_of_int a" "real_of_int a \<le> real_of_int (100 * z)"
    by (simp_all only: of_int_less_iff of_int_le_iff)
  then have "real_of_int z - 1 < real_of_int a / 100" "real_of_int a / 100 \<le> real_of_int z"
    by simp_all
  then have "\<lceil>real_of_int a / 100\<rceil> = z" by (rule ceiling_unique)
  then show ?thesis by (simp add: z_def)
qed

lemma targetCells_ceiling: "targetCells n = \<lceil>real_of_int (n * n * 45) / 100\<rceil>"
  unfolding targetCells_def WIN_PERCENTAGE_def by (rule ceiling_div_100)

text \<open>Running valid frames from the start of the program gives reachable states.\<close>

lemma reachable_runFrames:
  "reachable s \<Longrightarrow> list_all validFrame fs \<Longrightarrow> runFrames fs s = Some s' \<Longrightarrow> reachable s'"
proof (induction fs arbitrary: s)
  case Nil
  then show ?case by simp
next
  case (Cons f fs)
  from Cons.prems(3) obtain s1 where s1: "frameStep f s = Some s1" "runFrames fs s1 = Some s'"
    by (cases "frameStep f s") auto
  from Cons.prems(1,2) s1(1) have "reachable s1" by (auto intro: reachable.step)
  with Cons.IH Cons.prems(2) s1(2) show ?case by simp
qed

lemma reachable_from_start:
  assumes "(programStart \<bind> runFrames fs) = Some s" "list_all validFrame fs"
  shows "reachable s"
proof -
  from assms(1) obtain s0 where s0: "programStart = Some s0" "runFrames fs s0 = Some s"
    unfolding bind_eq_Some_conv by blast
  from s0(1) have "reachable s0" by (rule reachable.start)
  then show ?thesis using assms(2) s0(2) by (rule reachable_runFrames)
qed

lemma valid_frames:
  "validFrame (pressBtn b)" "validFrame (playRound c k)" "validFrame (clickOnly c)"
  "validFrame (clickWithA c)" "validFrame (clickWithS c)" "validFrame (waitForAI k)"
  by (simp_all add: validFrame_def pressBtn_def playRound_def clickOnly_def clickWithA_def
      clickWithS_def waitForAI_def noDraws_def)

lemma stray_run: "(programStart \<bind> runFrames strayFrames) = Some stray"
  by code_simp

lemma beforeThird_run: "(programStart \<bind> runFrames toBeforeThird) = Some beforeThird"
  by code_simp

text \<open>
  \<open>resetGame\<close> stays in range exactly on a grid that is already allocated for the
  current size, and never changes the allocation.
\<close>

lemma gridSet_defined:
  "gridSet g x y v = (if gridGet g x y \<noteq> None then Some (boardSet g (x, y) v) else None)"
  by (auto simp add: gridSet_def gridGet_def boardSet_def vecAt_def)

lemma gridGet_boardSet_defined:
  assumes "gridGet g (fst c) (snd c) \<noteq> None"
  shows "gridGet (boardSet g c v) x y \<noteq> None \<longleftrightarrow> gridGet g x y \<noteq> None"
  using assms by (simp add: gridGet_boardSet)

lemma setCells_defined:
  "setCells g cs v \<noteq> None \<longleftrightarrow> (\<forall>c \<in> set cs. gridGet g (fst c) (snd c) \<noteq> None)"
proof (induction cs arbitrary: g)
  case Nil
  show ?case by simp
next
  case (Cons a cs)
  obtain x y where a: "a = (x, y)" by (cases a)
  show ?case
  proof (cases "gridGet g x y \<noteq> None")
    case False
    then show ?thesis using a by (simp add: gridSet_defined)
  next
    case True
    then have "gridGet g (fst (x, y)) (snd (x, y)) \<noteq> None" by simp
    from gridGet_boardSet_defined [OF this] True a Cons.IH [of "boardSet g (x, y) v"]
    show ?thesis by (simp add: gridSet_defined)
  qed
qed

lemma setCells_shape:
  "setCells g cs v = Some g' \<Longrightarrow> map length g' = map length g"
proof (induction cs arbitrary: g)
  case Nil
  then show ?case by simp
next
  case (Cons a cs)
  obtain x y where a: "a = (x, y)" by (cases a)
  from Cons.prems a have "gridGet g x y \<noteq> None" and rest: "setCells (boardSet g (x, y) v) cs v = Some g'"
    by (auto simp add: gridSet_defined split: if_splits)
  have "map length (boardSet g (x, y) v) = map length g"
    by (cases "nat x < length g")
      (simp_all add: boardSet_def map_update list_update_same_conv list_update_beyond)
  with Cons.IH [OF rest] show ?case by simp
qed

lemma allCells_defined:
  "(\<forall>c \<in> set (allCells (gridSize s)). gridGet (grid s) (fst c) (snd c) \<noteq> None)
     \<longleftrightarrow> gridAllocated s \<or> gridSize s \<le> 0"
proof (cases "gridSize s \<le> 0")
  case True
  then have "set (allCells (gridSize s)) = {}" by (auto simp add: set_allCells)
  with True show ?thesis by simp
next
  case False
  show ?thesis
  proof
    assume all: "\<forall>c \<in> set (allCells (gridSize s)). gridGet (grid s) (fst c) (snd c) \<noteq> None"
    have cell: "gridGet (grid s) x y \<noteq> None" if "inGrid s x y" for x y
      using all that by (simp add: set_allCells inGrid_def)
    from False have last: "inGrid s (gridSize s - 1) (gridSize s - 1)"
      by (simp add: inGrid_def)
    from cell [OF last] have rows: "gridSize s \<le> int (length (grid s))"
      by (auto simp add: gridGet_def vecAt_def split: if_splits)
    have "gridSize s \<le> int (length (take (nat (gridSize s)) (grid s) ! i))"
      if "i < length (take (nat (gridSize s)) (grid s))" for i
    proof -
      from that have i: "i < nat (gridSize s)" by simp
      with False have "inGrid s (int i) (gridSize s - 1)" by (simp add: inGrid_def)
      from cell [OF this] i show ?thesis
        by (auto simp add: gridGet_def vecAt_def split: if_splits)
    qed
    with rows show "gridAllocated s \<or> gridSize s \<le> 0"
      by (simp add: gridAllocated_def list_all_length)
  next
    assume "gridAllocated s \<or> gridSize s \<le> 0"
    with False have "gridAllocated s" by simp
    then show "\<forall>c \<in> set (allCells (gridSize s)). gridGet (grid s) (fst c) (snd c) \<noteq> None"
      using allCells_inGrid [of s] by (auto simp add: gridGet_inGrid)
  qed
qed

lemma resetGame_defined:
  "resetGame s \<noteq> None \<longleftrightarrow> 0 < gridSize s \<and> gridAllocated s"
proof (cases "0 < gridSize s")
  case False
  have "gridSet g (gridSize s - 1) (gridSize s - 1) AI = None" for g
    using False by (simp add: gridSet_def vecAt_def)
  then show ?thesis using False
    by (simp add: resetGame_def bind_eq_None_conv)
next
  case True
  show ?thesis
  proof (cases "gridAllocated s")
    case False
    with True have "setCells (grid s) (allCells (gridSize s)) NEUTRAL = None"
      using setCells_defined [of "grid s" "allCells (gridSize s)" NEUTRAL]
        allCells_defined [of s] by auto
    with False show ?thesis by (simp add: resetGame_def)
  next
    case alloc: True
    have cells: "\<forall>c \<in> set cs. inGrid s (fst c) (snd c) \<Longrightarrow>
        setCells (grid s) cs v = Some (boardSetAll (grid s) cs v)" for cs v
      using alloc
    proof (induction cs arbitrary: s)
      case Nil
      show ?case by (simp add: boardSetAll_def)
    next
      case (Cons a cs)
      obtain x y where a: "a = (x, y)" by (cases a)
      let ?s' = "s\<lparr> grid := boardSet (grid s) (x, y) v \<rparr>"
      from Cons.prems a have set1: "gridSet (grid s) x y v = Some (boardSet (grid s) (x, y) v)"
        by (simp add: gridSet_inGrid)
      have alloc': "gridAllocated ?s'" using Cons.prems(2) by (rule gridAllocated_boardSet)
      have "\<forall>c \<in> set cs. inGrid ?s' (fst c) (snd c)"
        using Cons.prems(1) by (simp add: inGrid_def)
      from Cons.IH [OF this alloc'] set1 a show ?case by (simp add: boardSetAll_def)
    qed
    let ?s0 = "s\<lparr> grid := boardSetAll (grid s) (allCells (gridSize s)) NEUTRAL \<rparr>"
    have alloc0: "gridAllocated ?s0"
    proof -
      from cells [OF allCells_inGrid, of NEUTRAL]
      have "map length (grid ?s0) = map length (grid s)" by (simp add: setCells_shape)
      then have "length (grid ?s0) = length (grid s)"
          "\<And>i. i < length (grid s) \<Longrightarrow> length (grid ?s0 ! i) = length (grid s ! i)"
        by (metis length_map, metis length_map nth_map)
      with alloc show ?thesis by (simp add: gridAllocated_def list_all_length)
    qed
    from True have c0: "inGrid ?s0 0 0" by (simp add: inGrid_def)
    let ?s1 = "?s0\<lparr> grid := boardSet (grid ?s0) (0, 0) PLAYER \<rparr>"
    have alloc1: "gridAllocated ?s1" using alloc0 by (rule gridAllocated_boardSet)
    from True have c1: "inGrid ?s1 (gridSize s - 1) (gridSize s - 1)" by (simp add: inGrid_def)
    from cells [OF allCells_inGrid, of NEUTRAL] gridSet_inGrid [OF alloc0 c0, of PLAYER]
      gridSet_inGrid [OF alloc1 c1, of AI] True alloc
    show ?thesis by (simp add: resetGame_def)
  qed
qed

lemma resetGame_shape:
  assumes "resetGame s = Some s'"
  shows "map length (grid s') = map length (grid s)"
proof -
  from assms obtain g0 g1 g2 where
    g: "setCells (grid s) (allCells (gridSize s)) NEUTRAL = Some g0"
      "gridSet g0 0 0 PLAYER = Some g1"
      "gridSet g1 (gridSize s - 1) (gridSize s - 1) AI = Some g2" "grid s' = g2"
    by (auto simp add: resetGame_def bind_eq_Some_conv)
  have shape: "map length (boardSet b c v) = map length b" for b :: board and c v
    by (cases "nat (fst c) < length b")
      (simp_all add: boardSet_def map_update list_update_same_conv list_update_beyond)
  from g(2,3) have "g1 = boardSet g0 (0, 0) PLAYER"
      "g2 = boardSet g1 (gridSize s - 1, gridSize s - 1) AI"
    by (auto simp add: gridSet_defined split: if_splits)
  with setCells_shape [OF g(1)] g(4) show ?thesis by (simp add: shape)
qed

text \<open>
  A frame in which a click and an impulse key do not coincide preserves
  ``impulse selection active implies player's turn''.
\<close>

lemma selection_keeps_turn:
  assumes "handleImpulseCellSelection x y s = Some s'" "impulseModeActive s'"
  shows "playerTurn s' = playerTurn s"
proof -
  have attack: "playerTurn t = playerTurn s"
    if "selectAttackTarget x y s = Some t" "impulseModeActive t" for t
    using that
    by (auto simp add: selectAttackTarget_def finishImpulseMode_def Let_def bind_eq_Some_conv
        split: if_splits)
  have speed: "playerTurn t = playerTurn s"
    if "selectSpeedTarget x y s = Some t" "impulseModeActive t" for t
    using that
    by (auto simp add: selectSpeedTarget_def finishImpulseMode_def Let_def bind_eq_Some_conv
        split: if_splits)
  from assms attack speed show ?thesis
    by (auto simp add: handleImpulseCellSelection_def bind_eq_Some_conv split: if_splits)
qed

lemma clickCapture_keeps_mode:
  assumes "clickCapture inp s = Some s'"
  shows "impulseModeActive s' = impulseModeActive s"
  using assms
  by (auto simp add: clickCapture_def bind_eq_Some_conv split: option.splits if_splits)

lemma handleInput_turn:
  assumes "impulseModeActive s \<longrightarrow> playerTurn s"
    and "click inp = None \<or> \<not> keyA inp \<and> \<not> keyS inp"
    and "handleInput inp s = Some s'"
  shows "impulseModeActive s' \<longrightarrow> playerTurn s'"
proof (cases "currentState s = PLAYING")
  case False
  with assms(1,3) show ?thesis by (cases "currentState s") (simp_all add: handleInput_def)
next
  case True
  from assms(3) True obtain s1 where
    s1: "(if playerTurn s \<and> \<not> impulseModeActive s
          then clickCapture inp s \<bind> (\<lambda>t. Some (impulseKeys inp t)) else Some s) = Some s1"
      "impulseClick inp s1 = Some s'"
    by (auto simp add: handleInput_def bind_eq_Some_conv)
  have inv1: "impulseModeActive s1 \<longrightarrow> playerTurn s1"
  proof (cases "playerTurn s \<and> \<not> impulseModeActive s")
    case False
    with s1(1) assms(1) show ?thesis by auto
  next
    case turn: True
    from s1(1) turn obtain t where t: "clickCapture inp s = Some t" "s1 = impulseKeys inp t"
      by (auto simp add: bind_eq_Some_conv)
    show ?thesis
    proof (cases "click inp")
      case None
      with t(1) have "t = s" by (simp add: clickCapture_def)
      with t(2) turn show ?thesis by (simp add: impulseKeys_def startImpulseMode_def)
    next
      case (Some c)
      with assms(2) have "s1 = t" using t(2) by (simp add: impulseKeys_def)
      with clickCapture_keeps_mode [OF t(1)] turn show ?thesis by simp
    qed
  qed
  show ?thesis
  proof (cases "impulseModeActive s1 \<and> click inp \<noteq> None")
    case False
    with s1(2) have "s' = s1" by (auto simp add: impulseClick_def split: option.splits)
    with inv1 show ?thesis by simp
  next
    case sel: True
    then obtain x y where c: "click inp = Some (x, y)" by auto
    show ?thesis
    proof (cases "s' = s1")
      case True
      with inv1 show ?thesis by simp
    next
      case False
      with s1(2) c sel have "handleImpulseCellSelection x y s1 = Some s'"
        by (auto simp add: impulseClick_def split: if_splits)
      from selection_keeps_turn [OF this] inv1 sel show ?thesis by auto
    qed
  qed
qed

lemma updateGame_turn:
  assumes "impulseModeActive s \<longrightarrow> playerTurn s" "updateGame dt inp rnd s = Some s'"
  shows "impulseModeActive s' \<longrightarrow> playerTurn s'"
proof (cases "currentState s")
  case MENU
  have start: "\<not> impulseModeActive t'" if "startGame t = Some t'" for t t'
    using that by (auto simp add: startGame_def resetGame_def bind_eq_Some_conv)
  define s3 where "s3 = (let s1 = (if menuPressed inp Btn7 then s\<lparr> selectedGridSize := 0 \<rparr> else s);
      s2 = (if menuPressed inp Btn10 then s1\<lparr> selectedGridSize := 1 \<rparr> else s1)
      in if menuPressed inp Btn12 then s2\<lparr> selectedGridSize := 2 \<rparr> else s2)"
  have inv3: "impulseModeActive s3 \<longrightarrow> playerTurn s3"
    using assms(1) by (simp add: s3_def Let_def)
  have "updateMenu inp s = (if menuPressed inp BtnStart then startGame s3 else Some s3)
      \<bind> (\<lambda>s4. if keySpace inp then startGame s4 else Some s4)"
    by (simp add: updateMenu_def s3_def Let_def)
  with assms(2) MENU obtain s4 where
    s4: "(if menuPressed inp BtnStart then startGame s3 else Some s3) = Some s4"
      "(if keySpace inp then startGame s4 else Some s4) = Some s'"
    by (auto simp add: updateGame_def bind_eq_Some_conv)
  from s4(1) inv3 start have "impulseModeActive s4 \<longrightarrow> playerTurn s4"
    by (auto split: if_splits)
  with s4(2) start show ?thesis by (auto split: if_splits)
next
  case GAME_OVER
  with assms show ?thesis by (auto simp add: updateGame_def)
next
  case PLAYING
  show ?thesis
  proof (cases "gameResult s \<noteq> NONE \<or> playerTurn s")
    case True
    with assms PLAYING show ?thesis by (auto simp add: updateGame_def split: if_splits)
  next
    case False
    with assms(2) PLAYING have p: "processAITurn dt rnd s = Some s'"
      by (simp add: updateGame_def)
    show ?thesis
    proof (cases "aiTimer s + dt \<ge> AI_DELAY")
      case True
      with p obtain s1 where "s' = checkWinCondition (s1\<lparr> playerTurn := True \<rparr>)"
        by (auto simp add: processAITurn_def Let_def bind_eq_Some_conv)
      then show ?thesis by (simp add: checkWinCondition_def Let_def)
    next
      case notyet: False
      with p have "s' = s\<lparr> aiTimer := aiTimer s + dt \<rparr>"
        by (simp add: processAITurn_def Let_def)
      with assms(1) show ?thesis by simp
    qed
  qed
qed

lemma frameStep_turn:
  assumes "impulseModeActive s \<longrightarrow> playerTurn s"
    and "click (input f) = None \<or> \<not> keyA (input f) \<and> \<not> keyS (input f)"
    and "frameStep f s = Some s'"
  shows "impulseModeActive s' \<longrightarrow> playerTurn s'"
proof -
  from assms(3) obtain s1 where s1: "handleInput (input f) s = Some s1"
      "updateGame (deltaTime f) (input f) (random f) s1 = Some s'"
    by (auto simp add: frameStep_def bind_eq_Some_conv)
  from handleInput_turn [OF assms(1,2) s1(1)] s1(2) show ?thesis by (rule updateGame_turn)
qed



text \<open>The impulse branches of the AI spend the charges.\<close>

lemma checkWinCondition_charges: "aiCharges (checkWinCondition s) = aiCharges s"
  by (simp add: checkWinCondition_def Let_def)

lemma aiAttackBranch_spends:
  assumes "gridAllocated s" "attackableCells s \<noteq> []"
    and "isPermutation (perm rnd) (length (attackableCells s))"
  shows "\<exists>s'. aiAttackBranch rnd s = Some s' \<and> aiCharges s' = aiCharges s - impulseCost"
proof -
  from getAIAttackMove_some [OF assms(1), of rnd] assms(2,3) obtain cs where
    cs: "getAIAttackMove rnd s = Some cs" "set cs \<subseteq> set (attackableCells s)" "cs \<noteq> []"
    by blast
  from cs(2) have "\<forall>c \<in> set cs. inGrid s (fst c) (snd c)"
    using attackableCells_inGrid by blast
  from aiTakeFromPlayer_some [OF assms(1) this] cs(1,3) show ?thesis
    by (auto simp add: aiAttackBranch_def)
qed

lemma aiSpeedBranch_spends:
  assumes "gridAllocated s" "legalTargets s AI \<noteq> []"
    and "isPermutation (perm rnd) (length (legalTargets s AI))"
  shows "\<exists>s'. aiSpeedBranch rnd s = Some s' \<and> aiCharges s' = aiCharges s - impulseCost"
proof -
  from getAISpeedMove_some [OF assms(1), of rnd] assms(2,3) obtain cs where
    cs: "getAISpeedMove rnd s = Some cs" "set cs \<subseteq> set (legalTargets s AI)" "cs \<noteq> []"
    by blast
  from cs(2) have "\<forall>c \<in> set cs. inGrid s (fst c) (snd c)"
    using legalTargets_inGrid by blast
  from aiTakeNeutral_some [OF assms(1) this] cs(1,3) show ?thesis
    by (auto simp add: aiSpeedBranch_def)
qed

lemma aiContact_alloc: "gridAllocated aiContact"
  by code_simp

lemma aiContact_lists:
  "attackableCells aiContact = [(5, 0), (6, 0)]"
  "legalTargets aiContact AI = [(4, 1), (5, 2), (5, 3), (5, 4), (5, 5), (5, 6)]"
  by code_simp+

section \<open>The claims\<close>

text \<open>
  Claim C1, evaluated on the code. \<open>main\<close> allocates the grid once, in
  \<open>initializeGame\<close>, for the default size 10. Starting a session from the menu calls
  \<open>resetGame\<close>, which sets \<open>gridSize\<close> cells of \<open>gridSize\<close> rows to neutral without
  resizing the grid. After the button \<open>12x12\<close> the start button makes \<open>resetGame\<close> write
  \<open>grid[0][10]\<close> in a row of 10 cells: the access is out of range (\<open>resetGame_defined\<close>
  gives the general condition). After the button \<open>7x7\<close> the session runs on the
  \<open>10 \<times> 10\<close> allocation, in which the cell \<open>(9, 9)\<close> still belongs to the AI.
\<close>

theorem reset_keeps_allocation:
  "(programStart \<bind> runFrames [pressBtn Btn12]) \<noteq> None
   \<and> (programStart \<bind> runFrames [pressBtn Btn12, pressBtn BtnStart]) = None
   \<and> map_option (\<lambda>s. (gridSize s, length (grid s), gridGet (grid s) 9 9))
        (programStart \<bind> runFrames [pressBtn Btn7, pressBtn BtnStart]) = Some (7, 10, Some AI)"
  by code_simp




text \<open>
  Claim C3, evaluated on the code. \<open>handleInput\<close> reads the impulse keys after the
  click of the same frame has passed the turn to the AI (see claim C10), so a selection can
  be pending while the AI moves, and the AI can capture a neutral cell that is already in
  the pending speed selection of the player. At the reachable state
  \<open>beforeThird\<close> the counts agree with the grid. The third selection completes the speed
  impulse: the cell \<open>(6, 0)\<close>, by now owned by the AI, becomes the player's and
  \<open>playerCells\<close> grows by three, while \<open>aiCells\<close> stays 7 with 6 cells of the AI on the
  grid, and the three counts sum to 50 on a grid of 49 cells.
\<close>

theorem counts_diverge:
  "reachable beforeThird \<and> countsAgree beforeThird
   \<and> frameStep (clickOnly (0, 2)) beforeThird = Some miscounted
   \<and> reachable miscounted
   \<and> aiCells miscounted = 7 \<and> countCells miscounted AI = 6
   \<and> playerCells miscounted + aiCells miscounted + countCells miscounted NEUTRAL = 50
   \<and> gridSize miscounted * gridSize miscounted = 49
   \<and> \<not> countsAgree miscounted"
proof -
  have "list_all validFrame toBeforeThird"
    by (simp add: toBeforeThird_def toRound5_def valid_frames)
  with beforeThird_run have r: "reachable beforeThird" by (rule reachable_from_start)
  have agree: "countsAgree beforeThird" by code_simp
  have last: "frameStep (clickOnly (0, 2)) beforeThird = Some miscounted" by code_simp
  from r valid_frames(3) last have r': "reachable miscounted" by (rule reachable.step)
  have counts: "aiCells miscounted = 7" "countCells miscounted AI = 6"
    "playerCells miscounted + aiCells miscounted + countCells miscounted NEUTRAL = 50"
    "gridSize miscounted * gridSize miscounted = 49"
    by code_simp+
  then have "\<not> countsAgree miscounted" by (simp add: countsAgree_def)
  with r agree last r' counts show ?thesis by simp
qed

text \<open>
  Claim C4. The win target \<open>(gridSize\<^sup>2 \<times> 45 + 99) / 100\<close> of the code is the ceiling
  of \<open>gridSize\<^sup>2 \<times> 45 / 100\<close>. \<open>checkWinCondition\<close> sets the result to the outcome
  the specification gives for the two counts, and leaves it as it is when neither count
  meets the target. An AI turn that fires, on a grid allocated for \<open>gridSize\<close> and with
  draws the library can return, returns a state, and with the result \<open>NONE\<close> before the
  turn the result afterwards is the outcome for the counts after the turn: draw, player
  win, AI win, or still \<open>NONE\<close>. For \<open>gridSize = 10\<close> the target is 45, and the counts
  \<open>(45, 44)\<close>, \<open>(45, 45)\<close> and \<open>(44, 44)\<close> give player win, draw and \<open>NONE\<close>.
  The counts are unbounded integers here; in C++ the product stays below \<open>2\<^sup>3\<^sup>1\<close> for
  every \<open>gridSize\<close> up to 6908, so for the sizes 7, 10 and 12 of the menu.
\<close>

theorem win_condition:
  "targetCells n = \<lceil>real_of_int (n * n * 45) / 100\<rceil>
   \<and> gameResult (checkWinCondition s) =
       (if resultFor (targetCells (gridSize s)) (playerCells s) (aiCells s) = NONE
        then gameResult s
        else resultFor (targetCells (gridSize s)) (playerCells s) (aiCells s))
   \<and> (currentState s = PLAYING \<and> gameResult s = NONE \<and> \<not> playerTurn s
        \<and> aiTimer s + dt \<ge> AI_DELAY \<and> gridAllocated s \<and> drawsInRange rnd s \<longrightarrow>
      (\<exists>s'. updateGame dt inp rnd s = Some s'
         \<and> gameResult s' = resultFor (targetCells (gridSize s')) (playerCells s') (aiCells s')))
   \<and> targetCells 10 = 45
   \<and> gameResult (checkWinCondition (s\<lparr> gridSize := 10, playerCells := 45, aiCells := 44,
        gameResult := NONE \<rparr>)) = PLAYER_WIN
   \<and> gameResult (checkWinCondition (s\<lparr> gridSize := 10, playerCells := 45, aiCells := 45,
        gameResult := NONE \<rparr>)) = DRAW
   \<and> gameResult (checkWinCondition (s\<lparr> gridSize := 10, playerCells := 44, aiCells := 44,
        gameResult := NONE \<rparr>)) = NONE"
proof -
  have turn: "\<exists>s'. updateGame dt inp rnd s = Some s'
         \<and> gameResult s' = resultFor (targetCells (gridSize s')) (playerCells s') (aiCells s')"
    if h: "currentState s = PLAYING" "gameResult s = NONE" "\<not> playerTurn s"
      "aiTimer s + dt \<ge> AI_DELAY" "gridAllocated s" "drawsInRange rnd s"
  proof -
    from processAITurn_total [OF h(5,6,4)] obtain s1 where
      s1: "processAITurn dt rnd s = Some (checkWinCondition s1)" "gameResult s1 = NONE"
      using h(2) by auto
    have "updateGame dt inp rnd s = Some (checkWinCondition s1)"
      using h(1,2,3) s1(1) by (simp add: updateGame_def)
    moreover have "gameResult (checkWinCondition s1) =
        resultFor (targetCells (gridSize (checkWinCondition s1)))
          (playerCells (checkWinCondition s1)) (aiCells (checkWinCondition s1))"
      using s1(2) by (simp add: checkWinCondition_result checkWinCondition_fields)
    ultimately show ?thesis by blast
  qed
  have t10: "targetCells 10 = 45" by (simp add: targetCells_def WIN_PERCENTAGE_def)
  have ex: "gameResult (checkWinCondition (s\<lparr> gridSize := 10, playerCells := 45, aiCells := 44,
        gameResult := NONE \<rparr>)) = PLAYER_WIN"
    "gameResult (checkWinCondition (s\<lparr> gridSize := 10, playerCells := 45, aiCells := 45,
        gameResult := NONE \<rparr>)) = DRAW"
    "gameResult (checkWinCondition (s\<lparr> gridSize := 10, playerCells := 44, aiCells := 44,
        gameResult := NONE \<rparr>)) = NONE"
    by (simp_all add: checkWinCondition_def WIN_PERCENTAGE_def)
  from turn have turn': "currentState s = PLAYING \<and> gameResult s = NONE \<and> \<not> playerTurn s
        \<and> aiTimer s + dt \<ge> AI_DELAY \<and> gridAllocated s \<and> drawsInRange rnd s \<longrightarrow>
      (\<exists>s'. updateGame dt inp rnd s = Some s'
         \<and> gameResult s' = resultFor (targetCells (gridSize s')) (playerCells s') (aiCells s'))"
    by blast
  show ?thesis
    by (intro conjI) (rule targetCells_ceiling checkWinCondition_result turn' t10 ex)+
qed

text \<open>
  An AI turn at \<open>aiToMove\<close>.
\<close>

theorem win_condition_witness:
  "\<exists>s'. updateGame 1 noInput \<lparr> flip1 = 0.75, flip2 = 0.25, pick = 6, perm = [] \<rparr> aiToMove = Some s'
     \<and> gameResult s' = resultFor (targetCells (gridSize s')) (playerCells s') (aiCells s')"
proof -
  let ?rnd = "\<lparr> flip1 = 0.75, flip2 = 0.25, pick = 6, perm = [] \<rparr>"
  have st: "currentState aiToMove = PLAYING" "gameResult aiToMove = NONE"
      "\<not> playerTurn aiToMove" "aiTimer aiToMove + 1 \<ge> AI_DELAY"
    by (simp_all add: aiToMove_def round5_def AI_DELAY_def)
  have draws: "drawsInRange ?rnd aiToMove"
    using aiToMove_targets
    by (simp add: drawsInRange_def decideAIImpulseMode_def)
  from win_condition [of _ aiToMove 1 ?rnd noInput] st aiToMove_alloc draws
  show ?thesis by blast
qed

text \<open>
  Claim C5. The player's attack impulse. The key A enters the mode exactly with
  \<open>playerCharges \<ge> impulseCost\<close>. In the mode a click is accepted exactly on an attack
  target (a cell of the AI with a neighbour owned by the player); a target that is already
  selected is not added again. The first target is only recorded. When the second,
  different target is selected, both cells become the player's, \<open>aiCells\<close> drops by two,
  \<open>playerCells\<close> grows by two, \<open>playerCharges\<close> drops by \<open>impulseCost\<close> and gains
  nothing, the selection is cleared and the turn passes to the AI.
\<close>

theorem player_attack_impulse:
  assumes "currentState s = PLAYING" "gridAllocated s"
  shows "(playerTurn s \<and> \<not> impulseModeActive s \<and> click inp = None \<and> keyA inp \<longrightarrow>
      handleInput inp s = Some (if playerCharges s \<ge> impulseCost
        then s\<lparr> impulseModeActive := True, currentImpulseMode := ATTACK, selectedCells := [] \<rparr>
        else s))
   \<and> (impulseModeActive s \<and> currentImpulseMode s = ATTACK \<and> click inp = Some c \<longrightarrow>
       (\<not> attackTarget s c \<longrightarrow> handleInput inp s = Some s)
     \<and> (attackTarget s c \<and> selectedCells s = [] \<longrightarrow>
          handleInput inp s = Some (s\<lparr> selectedCells := [c] \<rparr>))
     \<and> (attackTarget s c \<and> selectedCells s = [c] \<longrightarrow> handleInput inp s = Some s)
     \<and> (\<forall>c1. attackTarget s c \<and> selectedCells s = [c1] \<and> c1 \<noteq> c
            \<and> inGrid s (fst c1) (snd c1) \<longrightarrow>
          handleInput inp s = Some (s\<lparr>
            grid := boardSet (boardSet (grid s) c1 PLAYER) c PLAYER,
            aiCells := aiCells s - 2, playerCells := playerCells s + 2,
            playerCharges := playerCharges s - impulseCost,
            impulseModeActive := False, currentImpulseMode := IMPULSE_NONE,
            selectedCells := [], playerTurn := False, aiTimer := 0 \<rparr>)
          \<and> gridGet (boardSet (boardSet (grid s) c1 PLAYER) c PLAYER) (fst c1) (snd c1)
              = Some PLAYER
          \<and> gridGet (boardSet (boardSet (grid s) c1 PLAYER) c PLAYER) (fst c) (snd c)
              = Some PLAYER))"
proof -
  obtain x y where c: "c = (x, y)" by (cases c)
  have enter: "playerTurn s \<and> \<not> impulseModeActive s \<and> click inp = None \<and> keyA inp \<longrightarrow>
      handleInput inp s = Some (if playerCharges s \<ge> impulseCost
        then s\<lparr> impulseModeActive := True, currentImpulseMode := ATTACK, selectedCells := [] \<rparr>
        else s)"
    using enter_impulse [OF assms(1)] by simp
  have sel: "handleInput inp s =
      (if attackTarget s c then selectAttackTarget x y s else Some s)"
    if "impulseModeActive s" "currentImpulseMode s = ATTACK" "click inp = Some c"
  proof (cases "inGrid s x y")
    case True
    then show ?thesis
      using that c impulse_frame [OF assms(1), of inp x y] handleImpulse_attack [OF assms(2)]
      by simp
  next
    case False
    then show ?thesis
      using that c impulse_frame [OF assms(1), of inp x y] by (simp add: attackTarget_def)
  qed
  have target_in: "attackTarget s c \<Longrightarrow> inGrid s x y"
    using c by (simp add: attackTarget_def)
  show ?thesis
    using enter sel c target_in selectAttack_first [of s x y] selectAttack_again [of x y s]
      selectAttack_second [OF assms(2), of _ x y]
      gridGet_boardSet_two [OF assms(2), of _ c PLAYER]
    by (intro conjI impI allI) (simp_all)
qed

text \<open>
  At \<open>round5\<close> the key A enters the attack mode; at \<open>attackPending\<close> the click on the
  second target \<open>(6, 2)\<close> resolves the attack.
\<close>

theorem player_attack_impulse_witness:
  "handleInput (noInput\<lparr> keyA := True \<rparr>) round5
     = Some (round5\<lparr> impulseModeActive := True, currentImpulseMode := ATTACK \<rparr>)
   \<and> handleInput (input (clickOnly (6, 2))) attackPending
     = Some (attackPending\<lparr>
         grid := boardSet (boardSet contactBoard (6, 1) PLAYER) (6, 2) PLAYER,
         aiCells := 4, playerCells := 11, playerCharges := 2,
         impulseModeActive := False, currentImpulseMode := IMPULSE_NONE,
         selectedCells := [], playerTurn := False, aiTimer := 0 \<rparr>)"
proof -
  have r5: "currentState round5 = PLAYING" by (simp add: round5_def)
  have ap: "currentState attackPending = PLAYING"
    by (simp add: attackPending_def round5_def)
  have alloc: "gridAllocated attackPending" by code_simp
  have target: "attackTarget attackPending (6, 2)" by code_simp
  have sel: "inGrid attackPending (fst (6, 1)) (snd (6, 1))" by code_simp
  show ?thesis
    using player_attack_impulse [OF r5 round5_alloc, of "noInput\<lparr> keyA := True \<rparr>" "(0, 0)"]
      player_attack_impulse [OF ap alloc, of "input (clickOnly (6, 2))" "(6, 2)"]
      target sel
    by (simp add: round5_def attackPending_def noInput_def clickOnly_def impulseCost_def
        IMPULSE_COST_def)
qed

text \<open>
  Claim C6. The player's speed impulse. The key S enters the mode exactly with
  \<open>playerCharges \<ge> impulseCost\<close>. In the mode a click is accepted exactly on a legal
  capture target of the player; a target that is already selected is not added again. The
  first two targets are only recorded. When the third, different target is selected, the
  three cells become the player's, \<open>playerCells\<close> grows by three, \<open>playerCharges\<close>
  drops by \<open>impulseCost\<close> and gains nothing, the selection is cleared and the turn
  passes to the AI.
\<close>

theorem player_speed_impulse:
  assumes "currentState s = PLAYING" "gridAllocated s"
  shows "(playerTurn s \<and> \<not> impulseModeActive s \<and> click inp = None \<and> \<not> keyA inp \<and> keyS inp \<longrightarrow>
      handleInput inp s = Some (if playerCharges s \<ge> impulseCost
        then s\<lparr> impulseModeActive := True, currentImpulseMode := SPEED, selectedCells := [] \<rparr>
        else s))
   \<and> (impulseModeActive s \<and> currentImpulseMode s = SPEED \<and> click inp = Some c \<longrightarrow>
       (\<not> legalCapture s PLAYER c \<longrightarrow> handleInput inp s = Some s)
     \<and> (legalCapture s PLAYER c \<and> c \<in> set (selectedCells s) \<and> length (selectedCells s) < 3 \<longrightarrow>
          handleInput inp s = Some s)
     \<and> (legalCapture s PLAYER c \<and> c \<notin> set (selectedCells s) \<and> length (selectedCells s) < 2 \<longrightarrow>
          handleInput inp s = Some (s\<lparr> selectedCells := selectedCells s @ [c] \<rparr>))
     \<and> (\<forall>c1 c2. legalCapture s PLAYER c \<and> selectedCells s = [c1, c2] \<and> c1 \<noteq> c \<and> c2 \<noteq> c
            \<and> inGrid s (fst c1) (snd c1) \<and> inGrid s (fst c2) (snd c2) \<longrightarrow>
          handleInput inp s = Some (s\<lparr>
            grid := boardSet (boardSet (boardSet (grid s) c1 PLAYER) c2 PLAYER) c PLAYER,
            playerCells := playerCells s + 3,
            playerCharges := playerCharges s - impulseCost,
            impulseModeActive := False, currentImpulseMode := IMPULSE_NONE,
            selectedCells := [], playerTurn := False, aiTimer := 0 \<rparr>)
          \<and> (\<forall>d \<in> {c1, c2, c}.
               gridGet (boardSet (boardSet (boardSet (grid s) c1 PLAYER) c2 PLAYER) c PLAYER)
                 (fst d) (snd d) = Some PLAYER)))"
proof -
  obtain x y where c: "c = (x, y)" by (cases c)
  have enter: "playerTurn s \<and> \<not> impulseModeActive s \<and> click inp = None \<and> \<not> keyA inp \<and> keyS inp \<longrightarrow>
      handleInput inp s = Some (if playerCharges s \<ge> impulseCost
        then s\<lparr> impulseModeActive := True, currentImpulseMode := SPEED, selectedCells := [] \<rparr>
        else s)"
    using enter_impulse [OF assms(1)] by simp
  have sel: "handleInput inp s =
      (if legalCapture s PLAYER c then selectSpeedTarget x y s else Some s)"
    if "impulseModeActive s" "currentImpulseMode s = SPEED" "click inp = Some c"
    using that c speed_frame [OF assms, of inp x y] by simp
  have target_in: "legalCapture s PLAYER c \<Longrightarrow> inGrid s x y"
    using c by (simp add: legalCapture_def)
  show ?thesis
    using enter sel c target_in selectSpeed_more [of x y s] selectSpeed_again [of x y s]
      selectSpeed_third [OF assms(2), of _ _ x y]
      gridGet_boardSet_three [OF assms(2), of _ _ c PLAYER]
    by (intro conjI impI allI) (simp_all)
qed

text \<open>
  At \<open>round5\<close> the key S enters the speed mode; at \<open>speedPending\<close> the click on the
  third target \<open>(1, 1)\<close> resolves the impulse.
\<close>

theorem player_speed_impulse_witness:
  "handleInput (noInput\<lparr> keyS := True \<rparr>) round5
     = Some (round5\<lparr> impulseModeActive := True, currentImpulseMode := SPEED \<rparr>)
   \<and> handleInput (input (clickOnly (1, 1))) speedPending
     = Some (speedPending\<lparr>
         grid := boardSet (boardSet (boardSet round5Board (6, 0) PLAYER) (0, 1) PLAYER)
                   (1, 1) PLAYER,
         playerCells := 9, playerCharges := 2,
         impulseModeActive := False, currentImpulseMode := IMPULSE_NONE,
         selectedCells := [], playerTurn := False, aiTimer := 0 \<rparr>)"
proof -
  have r5: "currentState round5 = PLAYING" by (simp add: round5_def)
  have sp: "currentState speedPending = PLAYING"
    by (simp add: speedPending_def round5_def)
  have alloc: "gridAllocated speedPending" by code_simp
  have target: "legalCapture speedPending PLAYER (1, 1)" by code_simp
  have sel: "inGrid speedPending (fst (6, 0)) (snd (6, 0))"
      "inGrid speedPending (fst (0, 1)) (snd (0, 1))" by code_simp+
  show ?thesis
    using player_speed_impulse [OF r5 round5_alloc, of "noInput\<lparr> keyS := True \<rparr>" "(0, 0)"]
      player_speed_impulse [OF sp alloc, of "input (clickOnly (1, 1))" "(1, 1)"]
      target sel
    by (simp add: round5_def speedPending_def noInput_def clickOnly_def impulseCost_def
        IMPULSE_COST_def)
qed




text \<open>
  Claim C8. When the AI turn fires and takes the ordinary branch, \<open>getAvailableMoves\<close>
  returns the legal targets of the AI, each exactly once, and the captured cell is the
  target at the index drawn by \<open>uniform_int_distribution(0, size - 1)\<close>: every legal
  target is chosen by exactly one value of the draw, so a uniform draw chooses uniformly
  among the legal targets. The chosen cell becomes the AI's and \<open>aiCells\<close> and
  \<open>aiCharges\<close> grow by one. Without a legal target the grid, the counts, the charges and
  the impulse state stay as they are. In both cases the turn returns to the player and the
  win check runs.
\<close>

theorem ai_ordinary_capture:
  assumes "gridAllocated s" "aiTimer s + dt \<ge> AI_DELAY"
    and "aiCharges s < impulseCost
       \<or> decideAIImpulseMode (flip1 rnd) \<noteq> ATTACK \<and> decideAIImpulseMode (flip2 rnd) \<noteq> SPEED"
  shows "getAvailableMoves s AI = Some (legalTargets s AI)
   \<and> (\<forall>c. legalCapture s AI c \<longrightarrow>
         (\<exists>!k. k < length (legalTargets s AI) \<and> legalTargets s AI ! k = c))
   \<and> (\<forall>k < length (legalTargets s AI). legalCapture s AI (legalTargets s AI ! k))
   \<and> (legalTargets s AI \<noteq> [] \<and> 0 \<le> pick rnd \<and> pick rnd < int (length (legalTargets s AI)) \<longrightarrow>
        processAITurn dt rnd s = Some (checkWinCondition (s\<lparr>
          aiTimer := aiTimer s + dt,
          grid := boardSet (grid s) (legalTargets s AI ! nat (pick rnd)) AI,
          aiCells := aiCells s + 1, aiCharges := aiCharges s + 1, playerTurn := True \<rparr>))
        \<and> gridGet (boardSet (grid s) (legalTargets s AI ! nat (pick rnd)) AI)
             (fst (legalTargets s AI ! nat (pick rnd))) (snd (legalTargets s AI ! nat (pick rnd)))
            = Some AI)
   \<and> (legalTargets s AI = [] \<longrightarrow>
        processAITurn dt rnd s = Some (checkWinCondition (s\<lparr>
          aiTimer := aiTimer s + dt, playerTurn := True \<rparr>)))"
proof -
  have moves: "getAvailableMoves s AI = Some (legalTargets s AI)"
    using assms(1) by (rule getAvailableMoves_targets)
  have one: "\<exists>!k. k < length (legalTargets s AI) \<and> legalTargets s AI ! k = c"
    if "legalCapture s AI c" for c
  proof -
    from that have "c \<in> set (legalTargets s AI)" by (simp add: legalTargets_set)
    with legalTargets_distinct show ?thesis by (rule distinct_Ex1)
  qed
  have all: "legalCapture s AI (legalTargets s AI ! k)" if "k < length (legalTargets s AI)" for k
    using nth_mem [OF that] by (simp add: legalTargets_set)
  have reads: "gridGet (boardSet (grid s) (legalTargets s AI ! nat (pick rnd)) AI)
             (fst (legalTargets s AI ! nat (pick rnd))) (snd (legalTargets s AI ! nat (pick rnd)))
            = Some AI"
    if "0 \<le> pick rnd \<and> pick rnd < int (length (legalTargets s AI))"
  proof -
    from that have "nat (pick rnd) < length (legalTargets s AI)" by linarith
    then have "legalTargets s AI ! nat (pick rnd) \<in> set (legalTargets s AI)" by (rule nth_mem)
    then have "inGrid s (fst (legalTargets s AI ! nat (pick rnd)))
        (snd (legalTargets s AI ! nat (pick rnd)))" by (rule legalTargets_inGrid)
    with assms(1) show ?thesis by (rule gridGet_boardSet_same)
  qed
  show ?thesis
    using moves one all reads processAITurn_ordinary [OF assms] by simp
qed

text \<open>
  With two charges the AI captures the target at index 6, the cell \<open>(6, 0)\<close>.
\<close>

theorem ai_ordinary_capture_witness:
  "processAITurn 1 \<lparr> flip1 = 0, flip2 = 0, pick = 6, perm = [] \<rparr> (aiToMove\<lparr> aiCharges := 2 \<rparr>)
     = Some (aiToMove\<lparr> aiTimer := 1, grid := boardSet round5Board (6, 0) AI,
          aiCells := 7, aiCharges := 3, playerTurn := True \<rparr>)"
proof -
  let ?s = "aiToMove\<lparr> aiCharges := 2 \<rparr>"
  let ?rnd = "\<lparr> flip1 = 0, flip2 = 0, pick = 6, perm = [] \<rparr>"
  have alloc: "gridAllocated ?s" by code_simp
  have fire: "aiTimer ?s + 1 \<ge> AI_DELAY" by (simp add: aiToMove_def AI_DELAY_def)
  have ord: "aiCharges ?s < impulseCost
       \<or> decideAIImpulseMode (flip1 ?rnd) \<noteq> ATTACK \<and> decideAIImpulseMode (flip2 ?rnd) \<noteq> SPEED"
    by (simp add: impulseCost_def IMPULSE_COST_def)
  have targets: "legalTargets ?s AI = [(5, 1), (5, 2), (5, 3), (5, 4), (5, 5), (5, 6), (6, 0)]"
    by code_simp
  show ?thesis
    using ai_ordinary_capture [OF alloc fire ord] targets
    by (simp add: aiToMove_def round5_def checkWinCondition_def WIN_PERCENTAGE_def)
qed

text \<open>
  Claim C9. With enough charges \<open>processAITurn\<close> calls \<open>decideAIImpulseMode\<close> once in
  the check of the attack branch and, when that draw did not choose the attack, once more
  in the check of the speed branch. The first draw alone decides the attack: below
  \<open>0.5\<close> the attack branch runs whatever the second draw is, and with a cell to attack it
  spends \<open>impulseCost\<close> charges. After a first draw of \<open>SPEED\<close> the second draw
  decides: \<open>SPEED\<close> again runs the speed branch, which with a legal target spends
  \<open>impulseCost\<close> charges; \<open>ATTACK\<close> runs neither impulse branch, and the turn is the
  ordinary capture, which gains a charge.
\<close>

theorem ai_double_flip:
  assumes "gridAllocated s" "aiTimer s + dt \<ge> AI_DELAY" "aiCharges s \<ge> impulseCost"
  shows "(flip1 rnd < 0.5 \<longrightarrow>
        processAITurn dt rnd s =
          aiAttackBranch rnd (s\<lparr> aiTimer := aiTimer s + dt \<rparr>)
            \<bind> (\<lambda>s1. Some (checkWinCondition (s1\<lparr> playerTurn := True \<rparr>)))
      \<and> (attackableCells s \<noteq> [] \<and> isPermutation (perm rnd) (length (attackableCells s)) \<longrightarrow>
          (\<exists>s'. processAITurn dt rnd s = Some s'
             \<and> aiCharges s' = aiCharges s - impulseCost)))
   \<and> (flip1 rnd \<ge> 0.5 \<and> flip2 rnd \<ge> 0.5 \<longrightarrow>
        processAITurn dt rnd s =
          aiSpeedBranch rnd (s\<lparr> aiTimer := aiTimer s + dt \<rparr>)
            \<bind> (\<lambda>s1. Some (checkWinCondition (s1\<lparr> playerTurn := True \<rparr>)))
      \<and> (legalTargets s AI \<noteq> [] \<and> isPermutation (perm rnd) (length (legalTargets s AI)) \<longrightarrow>
          (\<exists>s'. processAITurn dt rnd s = Some s'
             \<and> aiCharges s' = aiCharges s - impulseCost)))
   \<and> (flip1 rnd \<ge> 0.5 \<and> flip2 rnd < 0.5 \<longrightarrow>
        decideAIImpulseMode (flip1 rnd) = SPEED \<and> decideAIImpulseMode (flip2 rnd) = ATTACK
      \<and> processAITurn dt rnd s =
          aiCaptureBranch rnd (s\<lparr> aiTimer := aiTimer s + dt \<rparr>)
            \<bind> (\<lambda>s1. Some (checkWinCondition (s1\<lparr> playerTurn := True \<rparr>)))
      \<and> (legalTargets s AI \<noteq> [] \<and> 0 \<le> pick rnd
            \<and> pick rnd < int (length (legalTargets s AI)) \<longrightarrow>
          processAITurn dt rnd s = Some (checkWinCondition (s\<lparr>
            aiTimer := aiTimer s + dt,
            grid := boardSet (grid s) (legalTargets s AI ! nat (pick rnd)) AI,
            aiCells := aiCells s + 1, aiCharges := aiCharges s + 1, playerTurn := True \<rparr>))))"
proof -
  let ?s = "s\<lparr> aiTimer := aiTimer s + dt \<rparr>"
  let ?finish = "\<lambda>s1. Some (checkWinCondition (s1\<lparr> playerTurn := True \<rparr>))"
  have alloc: "gridAllocated ?s" using assms(1) by simp
  have attack: "processAITurn dt rnd s = aiAttackBranch rnd ?s \<bind> ?finish"
    if "flip1 rnd < 0.5"
    using that assms(2,3) by (simp add: processAITurn_def decideAIImpulseMode_def Let_def)
  have attack_spends: "\<exists>s'. processAITurn dt rnd s = Some s'
      \<and> aiCharges s' = aiCharges s - impulseCost"
    if "flip1 rnd < 0.5" "attackableCells s \<noteq> []"
      "isPermutation (perm rnd) (length (attackableCells s))"
  proof -
    from aiAttackBranch_spends [OF alloc, of rnd] that(2,3) obtain s1 where
      "aiAttackBranch rnd ?s = Some s1" "aiCharges s1 = aiCharges s - impulseCost" by auto
    with attack [OF that(1)] show ?thesis by (simp add: checkWinCondition_charges)
  qed
  have speed: "processAITurn dt rnd s = aiSpeedBranch rnd ?s \<bind> ?finish"
    if "flip1 rnd \<ge> 0.5" "flip2 rnd \<ge> 0.5"
    using that assms(2,3) by (simp add: processAITurn_def decideAIImpulseMode_def Let_def)
  have speed_spends: "\<exists>s'. processAITurn dt rnd s = Some s'
      \<and> aiCharges s' = aiCharges s - impulseCost"
    if "flip1 rnd \<ge> 0.5" "flip2 rnd \<ge> 0.5" "legalTargets s AI \<noteq> []"
      "isPermutation (perm rnd) (length (legalTargets s AI))"
  proof -
    from aiSpeedBranch_spends [OF alloc, of rnd] that(3,4) obtain s1 where
      "aiSpeedBranch rnd ?s = Some s1" "aiCharges s1 = aiCharges s - impulseCost" by auto
    with speed [OF that(1,2)] show ?thesis by (simp add: checkWinCondition_charges)
  qed
  have flips: "decideAIImpulseMode (flip1 rnd) = SPEED \<and> decideAIImpulseMode (flip2 rnd) = ATTACK"
    if "flip1 rnd \<ge> 0.5" "flip2 rnd < 0.5"
    using that by (simp add: decideAIImpulseMode_def)
  have ordinary: "processAITurn dt rnd s = aiCaptureBranch rnd ?s \<bind> ?finish"
    if "flip1 rnd \<ge> 0.5" "flip2 rnd < 0.5"
    using that assms(2) by (simp add: processAITurn_def decideAIImpulseMode_def Let_def)
  have capture: "processAITurn dt rnd s = Some (checkWinCondition (s\<lparr>
            aiTimer := aiTimer s + dt,
            grid := boardSet (grid s) (legalTargets s AI ! nat (pick rnd)) AI,
            aiCells := aiCells s + 1, aiCharges := aiCharges s + 1, playerTurn := True \<rparr>))"
    if "flip1 rnd \<ge> 0.5" "flip2 rnd < 0.5" "legalTargets s AI \<noteq> []" "0 \<le> pick rnd"
      "pick rnd < int (length (legalTargets s AI))"
  proof -
    from flips [OF that(1,2)] have "aiCharges s < impulseCost
       \<or> decideAIImpulseMode (flip1 rnd) \<noteq> ATTACK \<and> decideAIImpulseMode (flip2 rnd) \<noteq> SPEED"
      by simp
    from processAITurn_ordinary [OF assms(1,2) this] that(3,4,5) show ?thesis by simp
  qed
  have A: "flip1 rnd < 0.5 \<longrightarrow>
        processAITurn dt rnd s = aiAttackBranch rnd ?s \<bind> ?finish
      \<and> (attackableCells s \<noteq> [] \<and> isPermutation (perm rnd) (length (attackableCells s)) \<longrightarrow>
          (\<exists>s'. processAITurn dt rnd s = Some s'
             \<and> aiCharges s' = aiCharges s - impulseCost))"
    using attack attack_spends by blast
  have B: "flip1 rnd \<ge> 0.5 \<and> flip2 rnd \<ge> 0.5 \<longrightarrow>
        processAITurn dt rnd s = aiSpeedBranch rnd ?s \<bind> ?finish
      \<and> (legalTargets s AI \<noteq> [] \<and> isPermutation (perm rnd) (length (legalTargets s AI)) \<longrightarrow>
          (\<exists>s'. processAITurn dt rnd s = Some s'
             \<and> aiCharges s' = aiCharges s - impulseCost))"
    using speed speed_spends by blast
  have C: "flip1 rnd \<ge> 0.5 \<and> flip2 rnd < 0.5 \<longrightarrow>
        decideAIImpulseMode (flip1 rnd) = SPEED \<and> decideAIImpulseMode (flip2 rnd) = ATTACK
      \<and> processAITurn dt rnd s = aiCaptureBranch rnd ?s \<bind> ?finish
      \<and> (legalTargets s AI \<noteq> [] \<and> 0 \<le> pick rnd
            \<and> pick rnd < int (length (legalTargets s AI)) \<longrightarrow>
          processAITurn dt rnd s = Some (checkWinCondition (s\<lparr>
            aiTimer := aiTimer s + dt,
            grid := boardSet (grid s) (legalTargets s AI ! nat (pick rnd)) AI,
            aiCells := aiCells s + 1, aiCharges := aiCharges s + 1, playerTurn := True \<rparr>)))"
    using flips ordinary capture by blast
  from A B C show ?thesis by (intro conjI)
qed

text \<open>
  The three outcomes at \<open>aiContact\<close>, where the AI has six charges: the draws
  \<open>(0.25, 0.75)\<close> and \<open>(0.75, 0.75)\<close> leave three charges, the draws
  \<open>(0.75, 0.25)\<close> give the ordinary capture of \<open>(4, 1)\<close> and seven charges.
\<close>

theorem ai_double_flip_witness:
  "(\<exists>s'. processAITurn 1 \<lparr> flip1 = 0.25, flip2 = 0.75, pick = 0, perm = [1, 0] \<rparr> aiContact
        = Some s' \<and> aiCharges s' = 3)
   \<and> (\<exists>s'. processAITurn 1 \<lparr> flip1 = 0.75, flip2 = 0.75, pick = 0,
          perm = [5, 4, 3, 2, 1, 0] \<rparr> aiContact = Some s' \<and> aiCharges s' = 3)
   \<and> processAITurn 1 \<lparr> flip1 = 0.75, flip2 = 0.25, pick = 0, perm = [] \<rparr> aiContact
     = Some (aiContact\<lparr> aiTimer := 1, grid := boardSet round6Board (4, 1) AI,
          aiCells := 8, aiCharges := 7, playerTurn := True \<rparr>)"
proof -
  let ?attack = "\<lparr> flip1 = 0.25, flip2 = 0.75, pick = 0, perm = [1, 0] \<rparr>"
  let ?speed = "\<lparr> flip1 = 0.75, flip2 = 0.75, pick = 0, perm = [5, 4, 3, 2, 1, 0] \<rparr>"
  let ?ordinary = "\<lparr> flip1 = 0.75, flip2 = 0.25, pick = 0, perm = [] \<rparr>"
  have fire: "aiTimer aiContact + 1 \<ge> AI_DELAY"
    by (simp add: aiContact_def round6_def round5_def AI_DELAY_def)
  have charges: "aiCharges aiContact \<ge> impulseCost" "aiCharges aiContact - impulseCost = 3"
    by (simp_all add: aiContact_def round6_def round5_def impulseCost_def IMPULSE_COST_def)
  have perms: "isPermutation [1, 0] 2" "isPermutation [5, 4, 3, 2, 1, 0] 6"
    by (simp_all add: isPermutation_def)
  note turn = ai_double_flip [OF aiContact_alloc fire charges(1)]
  have lists: "attackableCells aiContact \<noteq> []
      \<and> isPermutation (perm ?attack) (length (attackableCells aiContact))"
    "legalTargets aiContact AI \<noteq> []
      \<and> isPermutation (perm ?speed) (length (legalTargets aiContact AI))"
    "legalTargets aiContact AI \<noteq> [] \<and> 0 \<le> pick ?ordinary
      \<and> pick ?ordinary < int (length (legalTargets aiContact AI))"
    by (simp_all add: aiContact_lists isPermutation_def)
  have flips: "flip1 ?attack < 0.5" "flip1 ?speed \<ge> 0.5 \<and> flip2 ?speed \<ge> 0.5"
    "flip1 ?ordinary \<ge> 0.5 \<and> flip2 ?ordinary < 0.5"
    by simp_all
  from turn [of ?attack] flips(1) lists(1)
  have "\<exists>s'. processAITurn 1 ?attack aiContact = Some s'
      \<and> aiCharges s' = aiCharges aiContact - impulseCost" by blast
  then have a: "\<exists>s'. processAITurn 1 ?attack aiContact = Some s' \<and> aiCharges s' = 3"
    unfolding charges(2) .
  from turn [of ?speed] flips(2) lists(2)
  have "\<exists>s'. processAITurn 1 ?speed aiContact = Some s'
      \<and> aiCharges s' = aiCharges aiContact - impulseCost" by blast
  then have b: "\<exists>s'. processAITurn 1 ?speed aiContact = Some s' \<and> aiCharges s' = 3"
    unfolding charges(2) .
  from turn [of ?ordinary] flips(3) lists(3)
  have "processAITurn 1 ?ordinary aiContact = Some (checkWinCondition (aiContact\<lparr>
            aiTimer := aiTimer aiContact + 1,
            grid := boardSet (grid aiContact)
              (legalTargets aiContact AI ! nat (pick ?ordinary)) AI,
            aiCells := aiCells aiContact + 1, aiCharges := aiCharges aiContact + 1,
            playerTurn := True \<rparr>))"
    by blast
  then have "processAITurn 1 ?ordinary aiContact = Some (checkWinCondition (aiContact\<lparr>
            aiTimer := aiTimer aiContact + 1,
            grid := boardSet (grid aiContact) (4, 1) AI,
            aiCells := aiCells aiContact + 1, aiCharges := aiCharges aiContact + 1,
            playerTurn := True \<rparr>))"
    by (simp add: aiContact_lists)
  then have c: "processAITurn 1 ?ordinary aiContact
     = Some (aiContact\<lparr> aiTimer := 1, grid := boardSet round6Board (4, 1) AI,
          aiCells := 8, aiCharges := 7, playerTurn := True \<rparr>)"
    by (simp add: aiContact_def round6_def round5_def checkWinCondition_def
        WIN_PERCENTAGE_def)
  from a b c show ?thesis by (intro conjI)
qed

text \<open>
  Claim C10, evaluated on the code. In \<open>handleInput\<close> the impulse keys are read inside
  the block guarded by \<open>playerTurn && !impulseModeActive\<close>, after the click of the same
  frame may already have captured a cell and passed the turn to the AI. A frame with a
  legal click that brings the charges to \<open>impulseCost\<close> and the key A leads to the
  reachable state \<open>stray\<close>: the impulse selection is active and it is the turn of the AI.
  In the next frames the AI moves while the selection is pending: the grid, \<open>aiCells\<close>
  and \<open>aiCharges\<close> change without any impulse target being selected. Frames in which a
  click and an impulse key do not coincide keep the invariant (\<open>frameStep_turn\<close>).
\<close>

theorem impulse_during_ai_turn:
  "reachable stray \<and> impulseModeActive stray \<and> \<not> playerTurn stray
   \<and> frameStep (waitForAI 0) stray
     = Some (stray\<lparr> grid := boardSet strayBoard (6, 9) AI, aiCells := 4, aiCharges := 3,
          playerTurn := True, aiTimer := 1 \<rparr>)"
proof -
  have "list_all validFrame strayFrames"
    by (simp add: strayFrames_def valid_frames)
  with stray_run have "reachable stray" by (rule reachable_from_start)
  moreover have "impulseModeActive stray" "\<not> playerTurn stray"
    by (simp_all add: stray_def)
  moreover have "frameStep (waitForAI 0) stray
     = Some (stray\<lparr> grid := boardSet strayBoard (6, 9) AI, aiCells := 4, aiCharges := 3,
          playerTurn := True, aiTimer := 1 \<rparr>)"
    by code_simp
  ultimately show ?thesis by simp
qed

end
